theory Spec2Isabelle
  imports Main "HOL-Library.Sublist" "HOL-Library.Multiset" "HOL-Library.Word"
begin

section \<open>Paths: Node's posix \<open>path.join\<close> and \<open>path.basename\<close>\<close>

text \<open>
  \<open>server.js\<close> builds every path with \<open>path.join(__dirname, ...)\<close>. Node joins the
  non-empty arguments with \<open>/\<close> and normalises the result: empty and \<open>.\<close> segments are
  dropped, a \<open>..\<close> segment removes the segment before it (and is dropped at the root of an
  absolute path), and a trailing separator is kept. \<open>__dirname\<close> is absolute and already
  normalised, so it is kept as its list of segments, and a joined path is kept in parsed
  form: its segments from the root, and whether it ends with a separator.
\<close>

type_synonym path = "string list \<times> bool"

fun split_sep :: "string \<Rightarrow> string list" where
  "split_sep [] = [[]]"
| "split_sep (c # cs) =
     (if c = CHR ''/'' then [] # split_sep cs
      else (case split_sep cs of [] \<Rightarrow> [[c]] | s # ss \<Rightarrow> (c # s) # ss))"

definition norm_step :: "string list \<Rightarrow> string \<Rightarrow> string list" where
  "norm_step st seg =
     (if seg = [] \<or> seg = ''.'' then st
      else if seg = ''..'' then butlast st
      else st @ [seg])"

definition joined_tail :: "string list \<Rightarrow> string" where
  "joined_tail args = concat (map (\<lambda>a. CHR ''/'' # a) (filter (\<lambda>a. a \<noteq> []) args))"

definition path_join :: "string list \<Rightarrow> string list \<Rightarrow> path" where
  "path_join base args =
     (let t = joined_tail args
      in (foldl norm_step base (split_sep t), t \<noteq> [] \<and> last t = CHR ''/''))"

definition path_basename :: "path \<Rightarrow> string" where
  "path_basename p = (if fst p = [] then [] else last (fst p))"

text \<open>
  \<open>path.extname\<close>: in the last component of the path, the text from its last dot on;
  empty when there is no dot, when the dot is the component's first character, and for
  the component \<open>..\<close>.
\<close>

definition path_extname :: "string \<Rightarrow> string" where
  "path_extname s =
     (case filter (\<lambda>x. x \<noteq> []) (split_sep s) of
        [] \<Rightarrow> []
      | c # cs \<Rightarrow>
          (let base = last (c # cs);
               i = length base - Suc (length (takeWhile (\<lambda>x. x \<noteq> CHR ''.'') (rev base)))
           in if CHR ''.'' \<notin> set base \<or> i = 0 \<or> base = ''..'' then [] else drop i base))"

definition plain_segment :: "string \<Rightarrow> bool" where
  "plain_segment s = (s \<noteq> [] \<and> s \<noteq> ''.'' \<and> s \<noteq> ''..'' \<and> CHR ''/'' \<notin> set s)"

section \<open>The file system\<close>

text \<open>
  The file system is the list of its entries, each an absolute path (segments from the
  root) with the kind of node there; the root is always a directory. The order of the
  list is the order in which \<open>readdir\<close> lists a directory. Operations fail for the reasons
  the tree gives (a missing entry, a regular file where a directory is needed, a directory
  where a file is needed); permission and device faults are outside the model.
\<close>

datatype node = File | Dir

datatype errno = ENOENT | ENOTDIR | EISDIR | EEXIST

type_synonym fs = "(string list \<times> node) list"

text \<open>
  The message of a file system error, as Node words it: the code and its description, the
  system call, and the path in single quotes.
\<close>

definition render_path :: "path \<Rightarrow> string" where
  "render_path p =
     (if fst p = [] then ''/''
      else concat (map (\<lambda>s. CHR ''/'' # s) (fst p)) @ (if snd p then ''/'' else []))"

definition errno_text :: "errno \<Rightarrow> string" where
  "errno_text e = (case e of ENOENT \<Rightarrow> ''ENOENT: no such file or directory''
     | ENOTDIR \<Rightarrow> ''ENOTDIR: not a directory''
     | EISDIR \<Rightarrow> ''EISDIR: illegal operation on a directory''
     | EEXIST \<Rightarrow> ''EEXIST: file already exists'')"

definition errno_message :: "errno \<Rightarrow> string \<Rightarrow> path \<Rightarrow> string" where
  "errno_message e syscall p =
     errno_text e @ '', '' @ syscall @ '' '' @ [CHR 0x27] @ render_path p @ [CHR 0x27]"

definition node_at :: "fs \<Rightarrow> string list \<Rightarrow> node option" where
  "node_at fs p = (if p = [] then Some Dir else map_of fs p)"

definition file_above :: "fs \<Rightarrow> string list \<Rightarrow> bool" where
  "file_above fs p = list_ex (\<lambda>k. node_at fs (take k p) = Some File) [0..<length p]"

text \<open>
  \<open>stat\<close> resolves a path component by component: the first proper prefix that is not a
  directory decides the error (\<open>ENOENT\<close> when it is missing, \<open>ENOTDIR\<close> when it is a
  regular file). A path with a trailing separator names a directory only.
\<close>

definition stat :: "fs \<Rightarrow> path \<Rightarrow> errno + node" where
  "stat fs pt =
     (case find (\<lambda>k. node_at fs (take k (fst pt)) \<noteq> Some Dir) [0..<length (fst pt)] of
        Some k \<Rightarrow> if node_at fs (take k (fst pt)) = None then Inl ENOENT else Inl ENOTDIR
      | None \<Rightarrow>
          (case node_at fs (fst pt) of
             None \<Rightarrow> Inl ENOENT
           | Some File \<Rightarrow> if snd pt then Inl ENOTDIR else Inr File
           | Some Dir \<Rightarrow> Inr Dir))"

definition existsSync :: "fs \<Rightarrow> path \<Rightarrow> bool" where
  "existsSync fs pt = (case stat fs pt of Inl e \<Rightarrow> False | Inr n \<Rightarrow> True)"

text \<open>
  The calls of the source: \<open>fs.rm(p, {recursive: true, force: true})\<close> removes the node
  and everything below it and ignores a missing path (\<open>ENOENT\<close>), nothing else;
  \<open>fs.unlink\<close> removes a regular file; \<open>fs.mkdir(p, {recursive: true})\<close> creates the
  directory with its missing parents and accepts an existing directory; opening a write
  stream creates or truncates a regular file in an existing directory; \<open>fs.readdir\<close> lists
  the names in a directory.
\<close>

definition remove_tree :: "string list \<Rightarrow> fs \<Rightarrow> fs" where
  "remove_tree p fs = filter (\<lambda>e. \<not> prefix p (fst e)) fs"

definition fs_rm :: "fs \<Rightarrow> path \<Rightarrow> errno + fs" where
  "fs_rm fs pt =
     (case stat fs pt of
        Inl e \<Rightarrow> if e = ENOENT then Inr fs else Inl e
      | Inr n \<Rightarrow> Inr (remove_tree (fst pt) fs))"

definition fs_unlink :: "fs \<Rightarrow> path \<Rightarrow> errno + fs" where
  "fs_unlink fs pt =
     (case stat fs pt of
        Inl e \<Rightarrow> Inl e
      | Inr Dir \<Rightarrow> Inl EISDIR
      | Inr File \<Rightarrow> Inr (filter (\<lambda>e. fst e \<noteq> fst pt) fs))"

definition fs_mkdir :: "fs \<Rightarrow> path \<Rightarrow> errno + fs" where
  "fs_mkdir fs pt =
     (let p = fst pt
      in if file_above fs p then Inl ENOTDIR
         else if node_at fs p = Some File then Inl EEXIST
         else Inr (fs @ map (\<lambda>k. (take k p, Dir))
                          (filter (\<lambda>k. node_at fs (take k p) = None) [1..<Suc (length p)])))"

definition fs_create :: "fs \<Rightarrow> path \<Rightarrow> errno + fs" where
  "fs_create fs pt =
     (let p = fst pt
      in if p = [] \<or> snd pt then Inl EISDIR
         else (case stat fs (butlast p, False) of
                 Inl e \<Rightarrow> Inl e
               | Inr File \<Rightarrow> Inl ENOTDIR
               | Inr Dir \<Rightarrow>
                   if node_at fs p = Some Dir then Inl EISDIR
                   else Inr (filter (\<lambda>e. fst e \<noteq> p) fs @ [(p, File)])))"

definition children :: "string list \<Rightarrow> fs \<Rightarrow> string list" where
  "children p fs = map (\<lambda>e. last (fst e)) (filter (\<lambda>e. fst e \<noteq> [] \<and> butlast (fst e) = p) fs)"

definition fs_readdir :: "fs \<Rightarrow> path \<Rightarrow> errno + string list" where
  "fs_readdir fs pt =
     (case stat fs pt of
        Inl e \<Rightarrow> Inl e
      | Inr File \<Rightarrow> Inl ENOTDIR
      | Inr Dir \<Rightarrow> Inr (children (fst pt) fs))"

section \<open>Numbers in strings: \<open>parseInt\<close> and the first run of digits\<close>

text \<open>
  File names, identifiers and URLs are kept as HOL strings: the source only concatenates
  them, splits them at \<open>/\<close> and looks for ASCII digits in them. The \<open>interval\<close> field is
  read by \<open>parseInt\<close>, which works on the UTF-16 code units of a JavaScript string, so it
  is kept as the list of its code units; \<open>code_units\<close> gives those of an ASCII text.
\<close>

definition char_code :: "char \<Rightarrow> nat" where
  "char_code c = of_char c"

definition code_units :: "string \<Rightarrow> 16 word list" where
  "code_units s = map of_char s"

definition is_digit :: "char \<Rightarrow> bool" where
  "is_digit c = (48 \<le> char_code c \<and> char_code c \<le> 57)"

definition digit_of_code :: "nat \<Rightarrow> nat" where
  "digit_of_code n =
     (if 48 \<le> n \<and> n \<le> 57 then n - 48
      else if 97 \<le> n \<and> n \<le> 122 then n - 87
      else if 65 \<le> n \<and> n \<le> 90 then n - 55
      else 36)"

definition digit_val :: "char \<Rightarrow> nat" where
  "digit_val c = digit_of_code (char_code c)"

definition digits_value :: "nat \<Rightarrow> string \<Rightarrow> nat" where
  "digits_value radix ds = foldl (\<lambda>a c. radix * a + digit_val c) 0 ds"

definition units_value :: "nat \<Rightarrow> 16 word list \<Rightarrow> nat" where
  "units_value radix ds = foldl (\<lambda>a u. radix * a + digit_of_code (unat u)) 0 ds"

text \<open>
  The white space and line terminators of ECMAScript: tab, line feed, vertical tab, form
  feed, carriage return, space, no-break space, the space separators \<open>U+1680\<close>,
  \<open>U+2000\<close> to \<open>U+200A\<close>, \<open>U+202F\<close>, \<open>U+205F\<close>, \<open>U+3000\<close>, the line and paragraph
  separators \<open>U+2028\<close> and \<open>U+2029\<close>, and \<open>U+FEFF\<close>.
\<close>

definition is_ws :: "16 word \<Rightarrow> bool" where
  "is_ws u =
     (u \<in> {9, 10, 11, 12, 13, 32, 160, 5760, 8232, 8233, 8239, 8287, 12288, 65279} \<or>
      (8192 \<le> u \<and> u \<le> 8202))"

text \<open>
  \<open>parseInt(s)\<close> with no radix: leading white space is skipped, a sign is read, a
  \<open>0x\<close> or \<open>0X\<close> prefix selects radix 16, and the longest prefix of digits of the radix is
  the value; with no digit the result is \<open>NaN\<close>, here \<open>None\<close>. The value is kept as the
  exact integer; the source only tests it for \<open>0\<close> and compares it with \<open>1\<close> and \<open>60\<close>,
  and the nearest double decides those tests the same way.
\<close>

definition parseInt :: "16 word list \<Rightarrow> int option" where
  "parseInt s =
     (let s1 = dropWhile is_ws s;
          neg = (s1 \<noteq> [] \<and> hd s1 = 45);
          s2 = (if s1 \<noteq> [] \<and> (hd s1 = 45 \<or> hd s1 = 43) then tl s1 else s1);
          hex = (take 2 s2 = [48, 120] \<or> take 2 s2 = [48, 88]);
          radix = (if hex then 16 else 10);
          s3 = (if hex then drop 2 s2 else s2);
          ds = takeWhile (\<lambda>u. digit_of_code (unat u) < radix) s3
      in if ds = [] then None
         else Some ((if neg then - 1 else 1) * int (units_value radix ds)))"

text \<open>\<open>a.match(/\d+/)\<close>: the first maximal run of decimal digits, \<open>null\<close> when there is none.\<close>

definition match_digits :: "string \<Rightarrow> string option" where
  "match_digits s =
     (let ds = takeWhile is_digit (dropWhile (\<lambda>c. \<not> is_digit c) s)
      in if ds = [] then None else Some ds)"

definition frame_number :: "string \<Rightarrow> nat" where
  "frame_number f = (case match_digits f of None \<Rightarrow> 0 | Some ds \<Rightarrow> digits_value 10 ds)"

text \<open>
  \<open>parseInt\<close> returns a Number: the double nearest to the integer the digits denote, ties
  to the even significand, and \<open>Infinity\<close> from \<open>2^1024 - 2^970\<close> on. An integer of at
  most 53 bits (\<open>bitlen\<close> counts them), that is one below \<open>2^53\<close>, is a double.
  \<open>Infinity\<close> is kept as \<open>2^1024\<close>, above every finite double: the comparator
  \<open>numA - numB\<close> gives \<open>NaN\<close> for two infinities, which \<open>sort\<close> reads as equal. (Beyond 20
  significant digits ECMAScript lets an implementation approximate the integer; the
  rounding of the exact value is kept here.)
\<close>

fun bitlen :: "nat \<Rightarrow> nat" where
  "bitlen n = (if n = 0 then 0 else Suc (bitlen (n div 2)))"

declare bitlen.simps [simp del]

definition to_double :: "nat \<Rightarrow> nat" where
  "to_double n =
     (if bitlen n \<le> 53 then n
      else (let e = bitlen n - 53;
                q = n div 2 ^ e;
                r = n mod 2 ^ e;
                m = (if 2 ^ e < 2 * r \<or> (2 * r = 2 ^ e \<and> odd q) then q + 1 else q);
                v = m * 2 ^ e
            in if 1024 < bitlen v then 2 ^ 1024 else v))"

definition frame_index :: "string \<Rightarrow> nat" where
  "frame_index f = to_double (frame_number f)"

fun dec :: "nat \<Rightarrow> string" where
  "dec n = (if n < 10 then [char_of (48 + n)] else dec (n div 10) @ [char_of (48 + n mod 10)])"

declare dec.simps [simp del]

definition frame_name :: "nat \<Rightarrow> string" where
  "frame_name n = ''frame_'' @ dec n @ ''.jpg''"

section \<open>The outside world of one request\<close>

text \<open>
  A promise of the source is its final state: resolved with a value, rejected with the
  message of the error, or never settled. It is never settled also when an exception
  nobody catches ends the work (an \<open>error\<close> event without a listener, a rejection
  without a handler): then no reply is sent.
\<close>

datatype 'a promise = Resolved 'a | Rejected string | Pending

text \<open>
  What happens first while \<open>downloadVideo\<close> waits: \<open>await axios\<close> throws (transport
  error, timeout, status outside 2xx), or the write stream reports an error (at once when
  its file could not be opened, otherwise after \<open>axios\<close> has resolved and the body is
  piped into it), or the stream finishes, or none of these events ever comes.
\<close>

datatype download_outcome = AxiosFails string | WriterFails string | Finished | Stalls

text \<open>
  What the engine does: it reports \<open>end\<close> or \<open>error\<close> (with its message) or never
  reports, having written the frames of the given indices (in this order) as
  \<open>frame_<n>.jpg\<close> into the output directory.
\<close>

datatype engine_outcome =
    EngineEnd "nat list"
  | EngineError string "nat list"
  | EngineStalls "nat list"

text \<open>
  The configuration of the process: \<open>__dirname\<close>, as its segments, and the environment
  variable \<open>BASE_URL\<close>. The world of one request: the values the calls of \<open>uuidv4()\<close>
  return (the upload's file name, the download's file name, the job's \<open>videoId\<close>) and
  what the download and the engine do.
\<close>

record config =
  dirname :: "string list"
  env_BASE_URL :: "string option"

record world =
  upload_uuid :: string
  download_uuid :: string
  video_uuid :: string
  download :: download_outcome
  engine :: engine_outcome

text \<open>
  The request as the handler reads it: the field \<open>interval\<close> of the body as the text
  \<open>parseInt\<close> reads when it is present (a value that is not a string through its
  conversion to one), the field \<open>videoUrl\<close> when it is a string (a JSON value of another
  type is outside the model), \<open>req.file.path\<close> of the upload staged by the multipart
  decoder when there is one, and the protocol and host used to build the frame URLs.
\<close>

record request =
  req_interval :: "16 word list option"
  req_videoUrl :: "string option"
  req_file :: "string list option"
  req_protocol :: string
  req_host :: string

text \<open>
  A reply is a JSON body with its status, or the call \<open>res.sendFile(path)\<close>. The bodies
  are \<open>{error, details?}\<close>, \<open>{success, videoId, interval, frameCount, keyFrames}\<close> and
  \<open>{success, message}\<close>.
\<close>

datatype body =
    ErrorBody string "string option"
  | ExtractOk string int nat "string list"
  | DeleteOk string

datatype response = Response nat body | SendFile path

text \<open>
  What one run of the \<open>POST\<close> handler leaves: the reply (none when the handler never
  replies), the file system at the moment the reply is sent, and the file system when the
  handler has ended, its \<open>finally\<close> block included.
\<close>

record outcome =
  reply :: "response option"
  fs_replied :: fs
  fs_done :: fs

section \<open>\<open>downloadVideo\<close>, \<open>extractKeyframes\<close>, \<open>cleanup\<close>\<close>

text \<open>
  \<open>downloadVideo\<close> creates the staging directory when it is missing, opens the write
  stream (which creates the file), and awaits \<open>axios\<close>; a failed request throws there.
  The listeners of the write stream are attached only after that: a stream that could
  not be opened reports its error while nobody listens, which ends the process without
  a reply, unless \<open>axios\<close> has thrown before. Otherwise the promise settles with the
  stream's \<open>finish\<close> or \<open>error\<close>.
\<close>

definition temp_dir :: "config \<Rightarrow> path" where
  "temp_dir cfg = path_join (dirname cfg) [''temp'']"

definition downloadVideo :: "config \<Rightarrow> world \<Rightarrow> string \<Rightarrow> fs \<Rightarrow> path promise \<times> fs" where
  "downloadVideo cfg w url fs =
     (let tempDir = temp_dir cfg
      in case (if existsSync fs tempDir then Inr fs else fs_mkdir fs tempDir) of
           Inl e \<Rightarrow> (Rejected (errno_message e ''mkdir'' tempDir), fs)
         | Inr fs1 \<Rightarrow>
             (let videoPath = path_join (fst tempDir) [download_uuid w @ ''.mp4'']
              in case fs_create fs1 videoPath of
                   Inl e \<Rightarrow>
                     (case download w of
                        AxiosFails m \<Rightarrow> (Rejected m, fs1)
                      | WriterFails m \<Rightarrow> (Pending, fs1)
                      | Finished \<Rightarrow> (Pending, fs1)
                      | Stalls \<Rightarrow> (Pending, fs1))
                 | Inr fs2 \<Rightarrow>
                     (case download w of
                        AxiosFails m \<Rightarrow> (Rejected m, fs2)
                      | WriterFails m \<Rightarrow> (Rejected m, fs2)
                      | Finished \<Rightarrow> (Resolved videoPath, fs2)
                      | Stalls \<Rightarrow> (Pending, fs2))))"

definition engine_write :: "path \<Rightarrow> nat list \<Rightarrow> fs \<Rightarrow> fs" where
  "engine_write outputDir written fs =
     foldl (\<lambda>f n. case fs_create f (path_join (fst outputDir) [frame_name n]) of
                     Inl e \<Rightarrow> f | Inr f' \<Rightarrow> f') fs written"

text \<open>
  \<open>Array.prototype.sort\<close> with the comparator \<open>numA - numB\<close>: a stable sort by the number
  read from the first run of digits. The comparator is called only when there are two
  elements or more, and then on every element; on a name without a digit
  \<open>a.match(/\d+/)\<close> is \<open>null\<close> and the comparator throws (\<open>None\<close>).
\<close>

definition sort_frames :: "string list \<Rightarrow> string list option" where
  "sort_frames fs =
     (if length fs \<le> 1 then Some fs
      else if list_all (\<lambda>f. match_digits f \<noteq> None) fs then Some (sort_key frame_index fs)
      else None)"

text \<open>
  The body of the \<open>end\<close> handler after \<open>readdir\<close>: filter, sort, join with the output
  directory.
\<close>

definition frame_files :: "path \<Rightarrow> string list \<Rightarrow> path list option" where
  "frame_files outputDir files =
     map_option (map (\<lambda>f. path_join (fst outputDir) [f]))
       (sort_frames (filter (\<lambda>f. prefix ''frame_'' f) files))"

text \<open>
  An exception inside the asynchronous \<open>end\<close> handler settles nothing: the promise of
  \<open>extractKeyframes\<close> stays pending.
\<close>

definition extractKeyframes ::
  "engine_outcome \<Rightarrow> path \<Rightarrow> int \<Rightarrow> path \<Rightarrow> fs \<Rightarrow> path list promise \<times> fs" where
  "extractKeyframes eng videoPath interval outputDir fs =
     (case eng of
        EngineError msg written \<Rightarrow>
          (Rejected (''FFmpeg error: '' @ msg), engine_write outputDir written fs)
      | EngineStalls written \<Rightarrow> (Pending, engine_write outputDir written fs)
      | EngineEnd written \<Rightarrow>
          (let fs1 = engine_write outputDir written fs
           in case fs_readdir fs1 outputDir of
                Inl e \<Rightarrow> (Pending, fs1)
              | Inr files \<Rightarrow>
                  (case frame_files outputDir files of
                     None \<Rightarrow> (Pending, fs1)
                   | Some paths \<Rightarrow> (Resolved paths, fs1))))"

definition cleanup :: "path \<Rightarrow> fs \<Rightarrow> fs" where
  "cleanup filePath fs = (case fs_unlink fs filePath of Inl e \<Rightarrow> fs | Inr fs1 \<Rightarrow> fs1)"

section \<open>\<open>POST /extract-keyframes\<close>\<close>

text \<open>\<open>parseInt(req.body.interval) || 5\<close>: \<open>NaN\<close> and \<open>0\<close> are falsy.\<close>

definition interval_of :: "16 word list option \<Rightarrow> int" where
  "interval_of field =
     (case field of
        None \<Rightarrow> 5
      | Some s \<Rightarrow> (case parseInt s of None \<Rightarrow> 5 | Some v \<Rightarrow> if v = 0 then 5 else v))"

definition base_url :: "config \<Rightarrow> request \<Rightarrow> string" where
  "base_url cfg req =
     (case env_BASE_URL cfg of
        Some b \<Rightarrow> if b \<noteq> [] then b else req_protocol req @ ''://'' @ req_host req
      | None \<Rightarrow> req_protocol req @ ''://'' @ req_host req)"

definition frame_url :: "string \<Rightarrow> string \<Rightarrow> path \<Rightarrow> string" where
  "frame_url baseUrl videoId framePath =
     baseUrl @ ''/frames/'' @ videoId @ ''/'' @ path_basename framePath"

text \<open>
  The rest of the \<open>try\<close> block once \<open>videoPath\<close> is assigned, with its \<open>catch\<close> and
  \<open>finally\<close>. The \<open>catch\<close> block removes the output directory and then replies; the
  \<open>finally\<close> block runs \<open>cleanup(videoPath)\<close> after the reply.
\<close>

definition extract_staged :: "config \<Rightarrow> world \<Rightarrow> request \<Rightarrow> int \<Rightarrow> path \<Rightarrow> fs \<Rightarrow> outcome" where
  "extract_staged cfg w req interval videoPath fs =
     (let videoId = video_uuid w;
          outputDir = path_join (dirname cfg) [''uploads'', videoId];
          failed = (\<lambda>msg fs1.
             let fs2 = (case fs_rm fs1 outputDir of Inl e \<Rightarrow> fs1 | Inr f \<Rightarrow> f)
             in \<lparr>reply = Some (Response 500 (ErrorBody ''Failed to extract keyframes'' (Some msg))),
                 fs_replied = fs2, fs_done = cleanup videoPath fs2\<rparr>)
      in case fs_mkdir fs outputDir of
           Inl e \<Rightarrow> failed (errno_message e ''mkdir'' outputDir) fs
         | Inr fs1 \<Rightarrow>
             (case extractKeyframes (engine w) videoPath interval outputDir fs1 of
                (Rejected msg, fs2) \<Rightarrow> failed msg fs2
              | (Pending, fs2) \<Rightarrow> \<lparr>reply = None, fs_replied = fs2, fs_done = fs2\<rparr>
              | (Resolved keyFramePaths, fs2) \<Rightarrow>
                  (let frameUrls = map (frame_url (base_url cfg req) videoId) keyFramePaths
                   in \<lparr>reply = Some (Response 200
                                        (ExtractOk videoId interval (length frameUrls) frameUrls)),
                       fs_replied = fs2, fs_done = cleanup videoPath fs2\<rparr>)))"

text \<open>\<open>if (req.body.videoUrl)\<close>: an absent field and the empty string are falsy.\<close>

definition url_of :: "request \<Rightarrow> string option" where
  "url_of req =
     (case req_videoUrl req of None \<Rightarrow> None | Some s \<Rightarrow> if s = [] then None else Some s)"

text \<open>The handler of the route: the \<open>async (req, res)\<close> callback with its \<open>try\<close> block.\<close>

definition post_extract_keyframes :: "config \<Rightarrow> world \<Rightarrow> request \<Rightarrow> fs \<Rightarrow> outcome" where
  "post_extract_keyframes cfg w req fs =
     (let interval = interval_of (req_interval req)
      in if interval < 1 \<or> interval > 60 then
           \<lparr>reply = Some (Response 400
                            (ErrorBody ''Interval must be between 1 and 60 seconds'' None)),
            fs_replied = fs, fs_done = fs\<rparr>
         else (case url_of req of
                 Some url \<Rightarrow>
                   (case downloadVideo cfg w url fs of
                      (Rejected msg, fs1) \<Rightarrow>
                        \<lparr>reply = Some (Response 400
                                   (ErrorBody ''Failed to download video from URL'' (Some msg))),
                         fs_replied = fs1, fs_done = fs1\<rparr>
                    | (Pending, fs1) \<Rightarrow> \<lparr>reply = None, fs_replied = fs1, fs_done = fs1\<rparr>
                    | (Resolved videoPath, fs1) \<Rightarrow>
                        extract_staged cfg w req interval videoPath fs1)
               | None \<Rightarrow>
                   (case req_file req of
                      Some p \<Rightarrow> extract_staged cfg w req interval (p, False) fs
                    | None \<Rightarrow>
                        \<lparr>reply = Some (Response 400
                                   (ErrorBody ''Either videoUrl or video file must be provided''
                                      None)),
                         fs_replied = fs, fs_done = fs\<rparr>)))"

section \<open>The route: body parser, upload middleware, handler, error middleware\<close>

text \<open>
  A request as it arrives: the error \<open>express.json()\<close> raises on its body when it does,
  the fields \<open>interval\<close> and \<open>videoUrl\<close>, and the file part \<open>video\<close> of a multipart body
  with its MIME type, its original name and its size in bytes.
\<close>

record upload =
  up_mimetype :: string
  up_originalname :: string
  up_size :: int

record raw_request =
  raw_body_error :: "string option"
  raw_interval :: "16 word list option"
  raw_videoUrl :: "string option"
  raw_upload :: "upload option"
  raw_protocol :: string
  raw_host :: string

definition allowedMimes :: "string list" where
  "allowedMimes =
     [''video/mp4'', ''video/mpeg'', ''video/quicktime'', ''video/x-msvideo'', ''video/webm'']"

text \<open>
  \<open>upload.single("video")\<close> runs before the handler. Without a file part it passes the
  request on. A file part of another MIME type is refused by \<open>fileFilter\<close> with an
  error. Otherwise \<open>destination\<close> creates the staging directory when it is missing (an
  exception in this \<open>async\<close> callback is caught by nobody: no reply), \<open>filename\<close> is a
  fresh UUID with the extension of the original name, and the file is written there; a
  file that cannot be opened, or one over the size limit (which is removed again), ends
  with an error. The handler gets the staged path as \<open>req.file.path\<close>.
\<close>

datatype upload_result = Passed request fs | Errored string fs | Unanswered fs

definition upload_single :: "config \<Rightarrow> world \<Rightarrow> raw_request \<Rightarrow> fs \<Rightarrow> upload_result" where
  "upload_single cfg w raw fs =
     (let req = \<lparr>req_interval = raw_interval raw, req_videoUrl = raw_videoUrl raw,
                 req_file = None, req_protocol = raw_protocol raw, req_host = raw_host raw\<rparr>
      in case raw_upload raw of
           None \<Rightarrow> Passed req fs
         | Some u \<Rightarrow>
             if up_mimetype u \<notin> set allowedMimes then
               Errored ''Invalid file type. Only video files are allowed.'' fs
             else
               (let tempDir = temp_dir cfg
                in case (if existsSync fs tempDir then Inr fs else fs_mkdir fs tempDir) of
                     Inl e \<Rightarrow> Unanswered fs
                   | Inr fs1 \<Rightarrow>
                       (let finalPath = path_join (fst tempDir)
                              [upload_uuid w @ path_extname (up_originalname u)]
                        in case fs_create fs1 finalPath of
                             Inl e \<Rightarrow> Errored (errno_message e ''open'' finalPath) fs1
                           | Inr fs2 \<Rightarrow>
                               if 500 * 1024 * 1024 < up_size u then
                                 Errored ''File too large'' (cleanup finalPath fs2)
                               else Passed (req\<lparr>req_file := Some (fst finalPath)\<rparr>) fs2)))"

text \<open>
  The error middleware answers every error passed on by a middleware with \<open>500\<close>,
  \<open>Internal server error\<close> and the error's message.
\<close>

definition error_middleware :: "string \<Rightarrow> fs \<Rightarrow> outcome" where
  "error_middleware m fs =
     \<lparr>reply = Some (Response 500 (ErrorBody ''Internal server error'' (Some m))),
      fs_replied = fs, fs_done = fs\<rparr>"

definition extract_route :: "config \<Rightarrow> world \<Rightarrow> raw_request \<Rightarrow> fs \<Rightarrow> outcome" where
  "extract_route cfg w raw fs =
     (case raw_body_error raw of
        Some m \<Rightarrow> error_middleware m fs
      | None \<Rightarrow>
          (case upload_single cfg w raw fs of
             Errored m fs1 \<Rightarrow> error_middleware m fs1
           | Unanswered fs1 \<Rightarrow> \<lparr>reply = None, fs_replied = fs1, fs_done = fs1\<rparr>
           | Passed req fs1 \<Rightarrow> post_extract_keyframes cfg w req fs1))"

section \<open>\<open>GET /frames/:videoId/:frameName\<close> and \<open>DELETE /frames/:videoId\<close>\<close>

definition get_frame :: "config \<Rightarrow> string \<Rightarrow> string \<Rightarrow> fs \<Rightarrow> response" where
  "get_frame cfg videoId frameName fs =
     (let framePath = path_join (dirname cfg) [''uploads'', videoId, frameName]
      in if \<not> existsSync fs framePath then Response 404 (ErrorBody ''Frame not found'' None)
         else SendFile framePath)"

definition delete_frames :: "config \<Rightarrow> string \<Rightarrow> fs \<Rightarrow> response \<times> fs" where
  "delete_frames cfg videoId fs =
     (let videoDir = path_join (dirname cfg) [''uploads'', videoId]
      in case fs_rm fs videoDir of
           Inr fs1 \<Rightarrow> (Response 200 (DeleteOk ''Frames deleted successfully''), fs1)
         | Inl e \<Rightarrow>
             (Response 500 (ErrorBody ''Failed to delete frames''
                              (Some (errno_message e ''lstat'' videoDir))), fs))"

section \<open>A small deployment used in the examples\<close>

definition example_cfg :: config where
  "example_cfg = \<lparr>dirname = [''app''], env_BASE_URL = None\<rparr>"

definition example_fs :: fs where
  "example_fs =
     [([''app''], Dir), ([''app'', ''secret.txt''], File),
      ([''app'', ''temp''], Dir), ([''app'', ''temp'', ''u.mp4''], File),
      ([''app'', ''uploads''], Dir), ([''app'', ''uploads'', ''job''], Dir),
      ([''app'', ''uploads'', ''job'', ''frame_1.jpg''], File)]"

definition example_world :: world where
  "example_world =
     \<lparr>upload_uuid = ''7c9e6679-7425-40de-944b-e07fc1f90ae7'',
      download_uuid = ''0b9d6c1e-5d4a-4b7c-9e1f-0a2b3c4d5e6f'',
      video_uuid = ''3f2b8c1e-7a10-4c55-8d21-6e0f9a4b2c77'',
      download = AxiosFails ''timeout of 60000ms exceeded'',
      engine = EngineEnd [1]\<rparr>"

definition example_upload :: request where
  "example_upload =
     \<lparr>req_interval = Some (code_units ''5''), req_videoUrl = None,
      req_file = Some [''app'', ''temp'', ''u.mp4''],
      req_protocol = ''http'', req_host = ''localhost:3000''\<rparr>"

definition example_by_url :: request where
  "example_by_url =
     \<lparr>req_interval = Some (code_units ''5''), req_videoUrl = Some ''http://media.test/a.mp4'',
      req_file = None, req_protocol = ''http'', req_host = ''localhost:3000''\<rparr>"

definition example_engine_fails :: world where
  "example_engine_fails = example_world\<lparr>engine := EngineError ''Invalid data found'' [1]\<rparr>"

definition example_upload_61 :: request where
  "example_upload_61 = example_upload\<lparr>req_interval := Some (code_units ''61'')\<rparr>"

definition example_download_ok :: world where
  "example_download_ok = example_world\<lparr>download := Finished\<rparr>"



definition example_raw_json :: raw_request where
  "example_raw_json =
     \<lparr>raw_body_error = None, raw_interval = Some (160 # code_units ''61''),
      raw_videoUrl = Some ''http://media.test/a.mp4'', raw_upload = None,
      raw_protocol = ''http'', raw_host = ''localhost:3000''\<rparr>"

definition example_raw_by_url :: raw_request where
  "example_raw_by_url = example_raw_json\<lparr>raw_interval := Some (code_units ''5'')\<rparr>"

definition example_frames_fs :: fs where
  "example_frames_fs =
     [([''app''], Dir), ([''app'', ''uploads''], Dir), ([''app'', ''uploads'', ''job''], Dir),
      ([''app'', ''uploads'', ''job'', ''notes.txt''], File)]"

section \<open>Facts about paths\<close>

lemma split_sep_nonempty: "split_sep s \<noteq> []"
  by (induction s) (auto split: list.splits)

lemma split_sep_append: "split_sep (x @ CHR ''/'' # y) = split_sep x @ split_sep y"
  by (induction x) (auto split: list.splits simp: split_sep_nonempty)

lemma split_sep_plain: "CHR ''/'' \<notin> set s \<Longrightarrow> split_sep s = [s]"
  by (induction s) auto

lemma norm_step_empty: "norm_step st [] = st"
  by (simp add: norm_step_def)

lemma joined_tail_Nil: "joined_tail [] = []"
  by (simp add: joined_tail_def)

lemma joined_tail_Cons:
  "joined_tail (a # args) = (if a = [] then joined_tail args else CHR ''/'' # a @ joined_tail args)"
  by (simp add: joined_tail_def)

lemma joined_tail_cases: "joined_tail args = [] \<or> (\<exists>t. joined_tail args = CHR ''/'' # t)"
  by (induction args) (auto simp: joined_tail_Cons joined_tail_Nil)

lemma fold_tail_step:
  "foldl norm_step st (split_sep (joined_tail (a # args))) =
   foldl norm_step (foldl norm_step st (split_sep a)) (split_sep (joined_tail args))"
proof (cases "a = []")
  case True
  then show ?thesis by (simp add: joined_tail_Cons norm_step_empty)
next
  case False
  from joined_tail_cases [of args] show ?thesis
  proof
    assume "joined_tail args = []"
    with False show ?thesis by (simp add: joined_tail_Cons norm_step_empty)
  next
    assume "\<exists>t. joined_tail args = CHR ''/'' # t"
    then obtain t where t: "joined_tail args = CHR ''/'' # t" ..
    with False show ?thesis
      by (simp add: joined_tail_Cons split_sep_append norm_step_empty)
  qed
qed

lemma path_join_segs:
  "fst (path_join base args) = foldl (\<lambda>st a. foldl norm_step st (split_sep a)) base args"
proof -
  have "foldl norm_step st (split_sep (joined_tail args)) =
        foldl (\<lambda>st a. foldl norm_step st (split_sep a)) st args" for st
    by (induction args arbitrary: st) (simp_all add: joined_tail_Nil norm_step_empty fold_tail_step)
  then show ?thesis by (simp add: path_join_def Let_def)
qed

lemma norm_plain: "plain_segment s \<Longrightarrow> foldl norm_step st (split_sep s) = st @ [s]"
  by (simp add: plain_segment_def split_sep_plain norm_step_def)

lemma norm_no_dotdot:
  "''..'' \<notin> set segs \<Longrightarrow> prefix st (foldl norm_step st segs)"
proof (induction segs arbitrary: st)
  case Nil
  then show ?case by simp
next
  case (Cons a segs)
  then have "prefix (norm_step st a) (foldl norm_step (norm_step st a) segs)" by simp
  moreover from Cons.prems have "prefix st (norm_step st a)" by (auto simp: norm_step_def)
  ultimately show ?case by (auto intro: prefix_order.trans)
qed

lemma joined_tail_last:
  "args \<noteq> [] \<Longrightarrow> last args \<noteq> [] \<Longrightarrow> last (joined_tail args) = last (last args) \<and> joined_tail args \<noteq> []"
  by (induction args) (auto simp: joined_tail_Cons joined_tail_Nil)

lemma path_join_snd_plain:
  "args \<noteq> [] \<Longrightarrow> plain_segment (last args) \<Longrightarrow> snd (path_join base args) = False"
proof -
  assume a: "args \<noteq> []" and p: "plain_segment (last args)"
  then have ne: "last args \<noteq> []" by (simp add: plain_segment_def)
  with a have l: "last (joined_tail args) = last (last args)" and "joined_tail args \<noteq> []"
    using joined_tail_last by blast+
  from ne p have "last (last args) \<noteq> CHR ''/''"
    unfolding plain_segment_def by (metis last_in_set)
  with l show ?thesis by (simp add: path_join_def Let_def)
qed

section \<open>Facts about the file system\<close>

lemma map_of_filter_fst:
  "map_of (filter (\<lambda>e. P (fst e)) fs) q = (if P q then map_of fs q else None)"
  by (induction fs) auto

lemma node_at_root: "node_at fs [] = Some Dir"
  by (simp add: node_at_def)

lemma node_at_remove_tree:
  "node_at (remove_tree p fs) q =
     (if q = [] then Some Dir else if prefix p q then None else node_at fs q)"
  by (simp add: node_at_def remove_tree_def map_of_filter_fst [where P = "\<lambda>q. \<not> prefix p q"])

lemma node_at_remove_entry:
  "node_at (filter (\<lambda>e. fst e \<noteq> p) fs) q =
     (if q = [] then Some Dir else if q = p then None else node_at fs q)"
  by (simp add: node_at_def map_of_filter_fst [where P = "\<lambda>q. q \<noteq> p"])

lemma stat_Inr_iff:
  "stat fs pt = Inr n \<longleftrightarrow>
     (\<forall>k<length (fst pt). node_at fs (take k (fst pt)) = Some Dir) \<and>
     node_at fs (fst pt) = Some n \<and> (n = File \<longrightarrow> \<not> snd pt)"
proof (cases "find (\<lambda>k. node_at fs (take k (fst pt)) \<noteq> Some Dir) [0..<length (fst pt)]")
  case None
  then have all: "\<forall>k<length (fst pt). node_at fs (take k (fst pt)) = Some Dir"
    by (auto simp: find_None_iff)
  with None show ?thesis
    by (auto simp: stat_def split: option.splits node.splits)
next
  case (Some k)
  then have "k < length (fst pt)" "node_at fs (take k (fst pt)) \<noteq> Some Dir"
    by (auto simp: find_Some_iff)
  with Some show ?thesis by (auto simp: stat_def)
qed

lemma existsSync_iff:
  "existsSync fs pt \<longleftrightarrow>
     (\<forall>k<length (fst pt). node_at fs (take k (fst pt)) = Some Dir) \<and>
     (node_at fs (fst pt) = Some Dir \<or> node_at fs (fst pt) = Some File \<and> \<not> snd pt)"
proof -
  have "existsSync fs pt \<longleftrightarrow> (\<exists>n. stat fs pt = Inr n)"
    by (auto simp: existsSync_def split: sum.splits)
  also have "\<dots> \<longleftrightarrow> (\<forall>k<length (fst pt). node_at fs (take k (fst pt)) = Some Dir) \<and>
     (node_at fs (fst pt) = Some Dir \<or> node_at fs (fst pt) = Some File \<and> \<not> snd pt)"
    unfolding stat_Inr_iff by (cases "node_at fs (fst pt)") (auto intro: node.exhaust)
  finally show ?thesis .
qed

lemma exists_above:
  assumes "existsSync fs (q, tr)" and "prefix p q"
  shows "existsSync fs (p, False)"
proof -
  from assms(2) obtain r where q: "q = p @ r" by (auto simp: prefix_def)
  have dirs: "\<forall>k<length q. node_at fs (take k q) = Some Dir"
    and fin: "node_at fs q = Some Dir \<or> node_at fs q = Some File \<and> \<not> tr"
    using assms(1) by (simp_all add: existsSync_iff)
  have "\<forall>k<length p. node_at fs (take k p) = Some Dir"
  proof (intro allI impI)
    fix k assume k: "k < length p"
    then have "k < length q" using q by simp
    with dirs have "node_at fs (take k q) = Some Dir" by blast
    with k q show "node_at fs (take k p) = Some Dir" by simp
  qed
  moreover have "node_at fs p = Some Dir \<or> node_at fs p = Some File"
  proof (cases "r = []")
    case True
    with fin q show ?thesis by auto
  next
    case False
    then have "length p < length q" using q by simp
    with dirs have "node_at fs (take (length p) q) = Some Dir" by blast
    with q show ?thesis by simp
  qed
  ultimately show ?thesis by (auto simp: existsSync_iff)
qed

lemma not_exists_below:
  "\<not> existsSync fs (p, False) \<Longrightarrow> prefix p q \<Longrightarrow> \<not> existsSync fs (q, tr)"
  using exists_above by blast

section \<open>Serving a frame\<close>

lemma get_frame_unfold:
  "get_frame cfg videoId frameName fs =
     (if existsSync fs (path_join (dirname cfg) [''uploads'', videoId, frameName])
      then SendFile (path_join (dirname cfg) [''uploads'', videoId, frameName])
      else Response 404 (ErrorBody ''Frame not found'' None))"
  by (simp add: get_frame_def Let_def)

lemma frame_path_below:
  assumes "''..'' \<notin> set (split_sep frameName)"
  shows "prefix (fst (path_join (dirname cfg) [''uploads'', videoId]))
                (fst (path_join (dirname cfg) [''uploads'', videoId, frameName]))"
  using assms by (simp add: path_join_segs norm_no_dotdot)

text \<open>
  Claim C1, as amended. The handler has no traversal guard: it joins the parameters to the
  uploads root, normalises, and serves whatever exists there. What holds is this: for
  every \<open>frameName\<close> with no parent-reference segment (separators are allowed), the request
  is answered \<open>404\<close> or serves an existing path at or below the job's output directory.
\<close>

theorem get_frame_confined:
  assumes "''..'' \<notin> set (split_sep frameName)"
  shows "get_frame cfg videoId frameName fs = Response 404 (ErrorBody ''Frame not found'' None) \<or>
         (\<exists>p. get_frame cfg videoId frameName fs = SendFile p \<and> existsSync fs p \<and>
              prefix (fst (path_join (dirname cfg) [''uploads'', videoId])) (fst p))"
proof (cases "existsSync fs (path_join (dirname cfg) [''uploads'', videoId, frameName])")
  case True
  with frame_path_below [OF assms, of cfg videoId] show ?thesis
    unfolding get_frame_unfold by (intro disjI2 exI conjI; simp)
next
  case False
  then show ?thesis by (simp add: get_frame_unfold)
qed

theorem get_frame_confined_witness:
  "''..'' \<notin> set (split_sep ''frame_1.jpg'') \<and>
   get_frame example_cfg ''job'' ''frame_1.jpg'' example_fs =
     SendFile ([''app'', ''uploads'', ''job'', ''frame_1.jpg''], False) \<and>
   (get_frame example_cfg ''job'' ''frame_1.jpg'' example_fs =
      Response 404 (ErrorBody ''Frame not found'' None) \<or>
    (\<exists>p. get_frame example_cfg ''job'' ''frame_1.jpg'' example_fs = SendFile p \<and>
          existsSync example_fs p \<and>
          prefix (fst (path_join (dirname example_cfg) [''uploads'', ''job''])) (fst p)))"
proof -
  have h: "''..'' \<notin> set (split_sep ''frame_1.jpg'')" by simp
  have e: "get_frame example_cfg ''job'' ''frame_1.jpg'' example_fs =
     SendFile ([''app'', ''uploads'', ''job'', ''frame_1.jpg''], False)"
    by code_simp
  from h e get_frame_confined [OF h, of example_cfg "''job''" example_fs] show ?thesis
    by blast
qed

text \<open>
  The claim as stated fails: \<open>GET /frames/job/..%2F..%2Fsecret.txt\<close> reaches the handler
  with \<open>frameName = ../../secret.txt\<close>, which resolves to a file outside the job's
  directory, and the handler serves it.
\<close>

theorem get_frame_traversal_counterexample:
  "get_frame example_cfg ''job'' ''../../secret.txt'' example_fs =
     SendFile ([''app'', ''secret.txt''], False) \<and>
   \<not> prefix (fst (path_join (dirname example_cfg) [''uploads'', ''job''])) [''app'', ''secret.txt'']"
  by code_simp

section \<open>Deleting a job\<close>

lemma fs_rm_ENOENT: "stat fs pt = Inl ENOENT \<Longrightarrow> fs_rm fs pt = Inr fs"
  by (simp add: fs_rm_def)

lemma stat_remove_tree_self:
  assumes "stat fs (p, tr) = Inr n" and "p \<noteq> []"
  shows "stat (remove_tree p fs) (p, tr) = Inl ENOENT"
proof -
  from assms(1) have dirs: "\<forall>k<length p. node_at fs (take k p) = Some Dir"
    by (simp add: stat_Inr_iff)
  have "\<forall>k<length p. node_at (remove_tree p fs) (take k p) = Some Dir"
  proof (intro allI impI)
    fix k assume k: "k < length p"
    then have "\<not> prefix p (take k p)"
      by (metis length_take min.absorb4 not_less prefix_length_le order_less_imp_le min_def)
    with k dirs show "node_at (remove_tree p fs) (take k p) = Some Dir"
      by (simp add: node_at_remove_tree node_at_root)
  qed
  then have "find (\<lambda>k. node_at (remove_tree p fs) (take k p) \<noteq> Some Dir) [0..<length p] = None"
    by (auto simp: find_None_iff)
  moreover have "node_at (remove_tree p fs) p = None"
    using assms(2) by (simp add: node_at_remove_tree)
  ultimately show ?thesis by (simp add: stat_def)
qed

lemma fs_rm_twice:
  "fs_rm fs pt = Inr fs1 \<Longrightarrow> fs_rm fs1 pt = Inr fs1"
proof -
  assume a: "fs_rm fs pt = Inr fs1"
  show ?thesis
  proof (cases "stat fs pt")
    case (Inl e)
    with a show ?thesis by (auto simp: fs_rm_def split: if_splits)
  next
    case (Inr n)
    with a have fs1: "fs1 = remove_tree (fst pt) fs" by (simp add: fs_rm_def)
    show ?thesis
    proof (cases "fst pt = []")
      case True
      then have "remove_tree (fst pt) fs = []" by (simp add: remove_tree_def)
      with fs1 True show ?thesis
        by (cases pt) (simp add: fs_rm_def stat_def node_at_def remove_tree_def)
    next
      case False
      with Inr stat_remove_tree_self [of fs "fst pt" "snd pt" n]
      have "stat fs1 pt = Inl ENOENT" by (simp add: fs1)
      then show ?thesis by (simp add: fs_rm_def)
    qed
  qed
qed

lemma delete_frames_twice:
  "delete_frames cfg videoId (snd (delete_frames cfg videoId fs)) = delete_frames cfg videoId fs"
proof (cases "fs_rm fs (path_join (dirname cfg) [''uploads'', videoId])")
  case (Inl e)
  then show ?thesis by (simp add: delete_frames_def Let_def)
next
  case (Inr fs1)
  with fs_rm_twice [OF Inr] show ?thesis by (simp add: delete_frames_def Let_def)
qed

lemma stat_missing:
  assumes "\<not> existsSync fs (p, False)"
  shows "stat fs (p, tr) = Inl ENOENT \<or> stat fs (p, tr) = Inl ENOTDIR"
proof (cases "stat fs (p, tr)")
  case (Inl e)
  then show ?thesis
    by (auto simp: stat_def split: option.splits node.splits if_splits)
next
  case (Inr n)
  then have "\<forall>k<length p. node_at fs (take k p) = Some Dir" and "node_at fs p = Some n"
    by (simp_all add: stat_Inr_iff)
  then have "existsSync fs (p, False)"
    by (cases n) (simp_all add: existsSync_iff)
  with assms show ?thesis by simp
qed

lemma fs_rm_ENOTDIR: "stat fs pt = Inl ENOTDIR \<Longrightarrow> fs_rm fs pt = Inl ENOTDIR"
  by (simp add: fs_rm_def)

text \<open>
  Claim C9, as amended. An identifier is nonexistent when nothing exists at the path of
  its directory. Then \<open>DELETE /frames/:videoId\<close> changes nothing, and its reply depends
  on why nothing is there: \<open>200\<close> with the success body when resolving the path reports
  \<open>ENOENT\<close>, which the \<open>force\<close> option ignores, and \<open>500\<close> with the error's message when the
  path runs through a regular file (\<open>ENOTDIR\<close>). Deleting twice replies and leaves the
  file system as deleting once does, from every state. After the deletion every
  \<open>frameName\<close> without a parent-reference segment is answered \<open>404\<close>.
\<close>

theorem delete_nonexistent_ok:
  assumes "\<not> existsSync fs (fst (path_join (dirname cfg) [''uploads'', videoId]), False)"
  shows "((stat fs (path_join (dirname cfg) [''uploads'', videoId]) = Inl ENOENT \<and>
           delete_frames cfg videoId fs =
             (Response 200 (DeleteOk ''Frames deleted successfully''), fs)) \<or>
          (stat fs (path_join (dirname cfg) [''uploads'', videoId]) = Inl ENOTDIR \<and>
           delete_frames cfg videoId fs =
             (Response 500 (ErrorBody ''Failed to delete frames''
                (Some (errno_message ENOTDIR ''lstat''
                         (path_join (dirname cfg) [''uploads'', videoId])))), fs))) \<and>
         (\<forall>fs'. delete_frames cfg videoId (snd (delete_frames cfg videoId fs')) =
                delete_frames cfg videoId fs') \<and>
         (\<forall>frameName. ''..'' \<notin> set (split_sep frameName) \<longrightarrow>
            get_frame cfg videoId frameName (snd (delete_frames cfg videoId fs)) =
              Response 404 (ErrorBody ''Frame not found'' None))"
proof -
  let ?dir = "path_join (dirname cfg) [''uploads'', videoId]"
  from stat_missing [OF assms, of "snd ?dir"]
  have st: "stat fs ?dir = Inl ENOENT \<or> stat fs ?dir = Inl ENOTDIR" by simp
  have del: "(stat fs ?dir = Inl ENOENT \<and>
           delete_frames cfg videoId fs =
             (Response 200 (DeleteOk ''Frames deleted successfully''), fs)) \<or>
          (stat fs ?dir = Inl ENOTDIR \<and>
           delete_frames cfg videoId fs =
             (Response 500 (ErrorBody ''Failed to delete frames''
                (Some (errno_message ENOTDIR ''lstat'' ?dir))), fs))"
    using st
  proof
    assume "stat fs ?dir = Inl ENOENT"
    then show ?thesis by (simp add: delete_frames_def Let_def fs_rm_ENOENT)
  next
    assume "stat fs ?dir = Inl ENOTDIR"
    then show ?thesis by (simp add: delete_frames_def Let_def fs_rm_ENOTDIR)
  qed
  then have same: "snd (delete_frames cfg videoId fs) = fs" by auto
  have "get_frame cfg videoId frameName fs = Response 404 (ErrorBody ''Frame not found'' None)"
    if "''..'' \<notin> set (split_sep frameName)" for frameName
    using not_exists_below [OF assms frame_path_below [OF that, of cfg videoId],
        of "snd (path_join (dirname cfg) [''uploads'', videoId, frameName])"]
    by (simp add: get_frame_unfold)
  with del same show ?thesis by (simp add: delete_frames_twice)
qed

theorem delete_nonexistent_ok_witness:
  "\<not> existsSync example_fs
       (fst (path_join (dirname example_cfg) [''uploads'', ''gone'']), False) \<and>
   stat example_fs (path_join (dirname example_cfg) [''uploads'', ''gone'']) = Inl ENOENT \<and>
   delete_frames example_cfg ''gone'' example_fs =
     (Response 200 (DeleteOk ''Frames deleted successfully''), example_fs) \<and>
   delete_frames example_cfg ''gone'' (snd (delete_frames example_cfg ''gone'' example_fs)) =
     delete_frames example_cfg ''gone'' example_fs \<and>
   ''..'' \<notin> set (split_sep ''frame_1.jpg'') \<and>
   get_frame example_cfg ''gone'' ''frame_1.jpg''
       (snd (delete_frames example_cfg ''gone'' example_fs)) =
     Response 404 (ErrorBody ''Frame not found'' None)"
proof -
  have h: "\<not> existsSync example_fs
       (fst (path_join (dirname example_cfg) [''uploads'', ''gone'']), False)"
    by code_simp
  have e: "stat example_fs (path_join (dirname example_cfg) [''uploads'', ''gone'']) = Inl ENOENT"
    by code_simp
  have p: "''..'' \<notin> set (split_sep ''frame_1.jpg'')" by simp
  note main = delete_nonexistent_ok [OF h]
  from main e have d: "delete_frames example_cfg ''gone'' example_fs =
     (Response 200 (DeleteOk ''Frames deleted successfully''), example_fs)" by simp
  from main have t: "delete_frames example_cfg ''gone''
       (snd (delete_frames example_cfg ''gone'' example_fs)) =
     delete_frames example_cfg ''gone'' example_fs" by blast
  from main p have g: "get_frame example_cfg ''gone'' ''frame_1.jpg''
       (snd (delete_frames example_cfg ''gone'' example_fs)) =
     Response 404 (ErrorBody ''Frame not found'' None)" by blast
  from h e d t p g show ?thesis by blast
qed

text \<open>
  The claim as stated fails twice. Nothing exists at \<open>job/frame_1.jpg/x\<close>, an identifier
  that runs through a frame file (\<open>DELETE /frames/job%2Fframe_1.jpg%2Fx\<close>), and its
  deletion is answered \<open>500\<close>. And after the deletion of the nonexistent identifier
  \<open>gone\<close>, the frame name \<open>../job/frame_1.jpg\<close> under that identifier is served, from the
  directory of another job.
\<close>

theorem delete_nonexistent_counterexample:
  "\<not> existsSync example_fs (path_join (dirname example_cfg) [''uploads'', ''job/frame_1.jpg/x'']) \<and>
   delete_frames example_cfg ''job/frame_1.jpg/x'' example_fs =
     (Response 500 (ErrorBody ''Failed to delete frames''
        (Some (''ENOTDIR: not a directory, lstat '' @ [CHR 0x27] @
               ''/app/uploads/job/frame_1.jpg/x'' @ [CHR 0x27]))), example_fs) \<and>
   \<not> existsSync example_fs (path_join (dirname example_cfg) [''uploads'', ''gone'']) \<and>
   delete_frames example_cfg ''gone'' example_fs =
     (Response 200 (DeleteOk ''Frames deleted successfully''), example_fs) \<and>
   get_frame example_cfg ''gone'' ''../job/frame_1.jpg''
       (snd (delete_frames example_cfg ''gone'' example_fs)) =
     SendFile ([''app'', ''uploads'', ''job'', ''frame_1.jpg''], False)"
  by code_simp

text \<open>
  Claim C10. \<open>videoId\<close> is joined to the uploads root unchecked. For \<open>videoId = ..\<close> the
  joined path is \<open>__dirname\<close> itself, which is not inside the uploads root; when it exists
  the handler replies \<open>200\<close> and has removed it with everything below it, the staging
  directory included.
\<close>

theorem delete_frames_parent_escapes:
  assumes "existsSync fs (dirname cfg, False)"
  shows "delete_frames cfg ''..'' fs =
           (Response 200 (DeleteOk ''Frames deleted successfully''),
            remove_tree (dirname cfg) fs) \<and>
         \<not> prefix (fst (path_join (dirname cfg) [''uploads''])) (dirname cfg) \<and>
         \<not> existsSync (snd (delete_frames cfg ''..'' fs)) (temp_dir cfg) \<and>
         list_all (\<lambda>e. \<not> prefix (dirname cfg) (fst e)) (snd (delete_frames cfg ''..'' fs))"
proof -
  have pj: "path_join (dirname cfg) [''uploads'', ''..''] = (dirname cfg, False)"
    by (simp add: path_join_def joined_tail_def norm_step_def Let_def)
  from assms obtain n where "stat fs (dirname cfg, False) = Inr n"
    by (auto simp: existsSync_def split: sum.splits)
  then have del: "delete_frames cfg ''..'' fs =
           (Response 200 (DeleteOk ''Frames deleted successfully''),
            remove_tree (dirname cfg) fs)"
    by (simp add: delete_frames_def Let_def pj fs_rm_def)
  have up: "fst (path_join (dirname cfg) [''uploads'']) = dirname cfg @ [''uploads'']"
    by (simp add: path_join_def joined_tail_def norm_step_def Let_def)
  have tmp: "temp_dir cfg = (dirname cfg @ [''temp''], False)"
    by (simp add: temp_dir_def path_join_def joined_tail_def norm_step_def Let_def)
  have "node_at (remove_tree (dirname cfg) fs) (dirname cfg @ [''temp'']) = None"
    by (simp add: node_at_remove_tree)
  then have "\<not> existsSync (remove_tree (dirname cfg) fs) (temp_dir cfg)"
    by (simp add: existsSync_iff tmp)
  moreover have "list_all (\<lambda>e. \<not> prefix (dirname cfg) (fst e)) (remove_tree (dirname cfg) fs)"
    by (simp add: remove_tree_def list_all_iff)
  ultimately show ?thesis using del up by simp
qed

theorem delete_frames_parent_escapes_witness:
  "existsSync example_fs (dirname example_cfg, False) \<and>
   existsSync example_fs (temp_dir example_cfg) \<and>
   delete_frames example_cfg ''..'' example_fs =
     (Response 200 (DeleteOk ''Frames deleted successfully''), []) \<and>
   \<not> existsSync (snd (delete_frames example_cfg ''..'' example_fs)) (temp_dir example_cfg)"
proof -
  have h: "existsSync example_fs (dirname example_cfg, False)" by code_simp
  have t: "existsSync example_fs (temp_dir example_cfg)" by code_simp
  have r: "remove_tree (dirname example_cfg) example_fs = []" by code_simp
  note main = delete_frames_parent_escapes [OF h]
  from main r have d: "delete_frames example_cfg ''..'' example_fs =
     (Response 200 (DeleteOk ''Frames deleted successfully''), [])" by simp
  from main have n: "\<not> existsSync (snd (delete_frames example_cfg ''..'' example_fs))
     (temp_dir example_cfg)" by blast
  from h t d n show ?thesis by blast
qed

section \<open>The replies of \<open>POST /extract-keyframes\<close>\<close>

lemma extract_staged_reply:
  "reply (extract_staged cfg w req i vp fs) = Some (Response st b) \<Longrightarrow>
     (st = 500 \<and> (\<exists>m. b = ErrorBody ''Failed to extract keyframes'' (Some m))) \<or>
     (st = 200 \<and> (\<exists>urls. b = ExtractOk (video_uuid w) i (length urls) urls))"
  by (auto simp: extract_staged_def Let_def split: sum.splits prod.splits promise.splits)

lemma post_invalid_interval:
  "interval_of (req_interval req) < 1 \<or> 60 < interval_of (req_interval req) \<Longrightarrow>
   post_extract_keyframes cfg w req fs =
     \<lparr>reply = Some (Response 400 (ErrorBody ''Interval must be between 1 and 60 seconds'' None)),
      fs_replied = fs, fs_done = fs\<rparr>"
  by (auto simp: post_extract_keyframes_def Let_def)

lemma post_download_rejected:
  assumes "1 \<le> interval_of (req_interval req)" "interval_of (req_interval req) \<le> 60"
    and "url_of req = Some url" and "fst (downloadVideo cfg w url fs) = Rejected msg"
  shows "post_extract_keyframes cfg w req fs =
     \<lparr>reply = Some (Response 400 (ErrorBody ''Failed to download video from URL'' (Some msg))),
      fs_replied = snd (downloadVideo cfg w url fs),
      fs_done = snd (downloadVideo cfg w url fs)\<rparr>"
  using assms
  by (cases "downloadVideo cfg w url fs") (auto simp: post_extract_keyframes_def Let_def)

lemma post_no_source:
  assumes "1 \<le> interval_of (req_interval req)" "interval_of (req_interval req) \<le> 60"
    and "url_of req = None" and "req_file req = None"
  shows "post_extract_keyframes cfg w req fs =
     \<lparr>reply = Some (Response 400 (ErrorBody ''Either videoUrl or video file must be provided'' None)),
      fs_replied = fs, fs_done = fs\<rparr>"
  using assms by (auto simp: post_extract_keyframes_def Let_def)

lemma post_downloaded:
  assumes "1 \<le> interval_of (req_interval req)" "interval_of (req_interval req) \<le> 60"
    and "url_of req = Some url" and "downloadVideo cfg w url fs = (Resolved vp, fs1)"
  shows "post_extract_keyframes cfg w req fs =
           extract_staged cfg w req (interval_of (req_interval req)) vp fs1"
  using assms by (auto simp: post_extract_keyframes_def Let_def)

lemma post_uploaded:
  assumes "1 \<le> interval_of (req_interval req)" "interval_of (req_interval req) \<le> 60"
    and "url_of req = None" and "req_file req = Some p"
  shows "post_extract_keyframes cfg w req fs =
           extract_staged cfg w req (interval_of (req_interval req)) (p, False) fs"
  using assms by (auto simp: post_extract_keyframes_def Let_def)

lemma post_download_pending:
  assumes "1 \<le> interval_of (req_interval req)" "interval_of (req_interval req) \<le> 60"
    and "url_of req = Some url" and "fst (downloadVideo cfg w url fs) = Pending"
  shows "reply (post_extract_keyframes cfg w req fs) = None"
  using assms
  by (cases "downloadVideo cfg w url fs") (auto simp: post_extract_keyframes_def Let_def)

lemma handler_400:
  assumes r: "reply (post_extract_keyframes cfg w req fs) = Some (Response 400 b)"
  shows "((interval_of (req_interval req) < 1 \<or> 60 < interval_of (req_interval req)) \<and>
         b = ErrorBody ''Interval must be between 1 and 60 seconds'' None) \<or>
      (\<exists>u m. url_of req = Some u \<and> fst (downloadVideo cfg w u fs) = Rejected m \<and>
         b = ErrorBody ''Failed to download video from URL'' (Some m)) \<or>
      (url_of req = None \<and> req_file req = None \<and>
         b = ErrorBody ''Either videoUrl or video file must be provided'' None)"
proof (cases "interval_of (req_interval req) < 1 \<or> 60 < interval_of (req_interval req)")
  case True
  with r show ?thesis by (simp add: post_invalid_interval)
next
  case False
  then have v: "1 \<le> interval_of (req_interval req)" "interval_of (req_interval req) \<le> 60"
    by auto
  show ?thesis
  proof (cases "url_of req")
    case None
    show ?thesis
    proof (cases "req_file req")
      case N: None
      with r v None show ?thesis by (simp add: post_no_source)
    next
      case (Some p)
      with r v None
      have "reply (extract_staged cfg w req (interval_of (req_interval req)) (p, False) fs) =
              Some (Response 400 b)"
        by (simp add: post_uploaded)
      from extract_staged_reply [OF this] show ?thesis by simp
    qed
  next
    case (Some u)
    obtain pr fs1 where d: "downloadVideo cfg w u fs = (pr, fs1)" by (cases "downloadVideo cfg w u fs")
    show ?thesis
    proof (cases pr)
      case (Resolved vp)
      with r v Some d
      have "reply (extract_staged cfg w req (interval_of (req_interval req)) vp fs1) =
              Some (Response 400 b)"
        by (simp add: post_downloaded)
      from extract_staged_reply [OF this] show ?thesis by simp
    next
      case (Rejected m)
      with r v Some d post_download_rejected [of req u cfg w fs m] show ?thesis by simp
    next
      case Pending
      with r v Some d post_download_pending [of req u cfg w fs] show ?thesis by simp
    qed
  qed
qed

text \<open>
  Claim C3 at a failing input. An upload with the interval \<open>61\<close> is rejected before
  \<open>videoPath\<close> is assigned, so the \<open>finally\<close> block cleans nothing and the uploaded file
  is still in the staging directory when the handler ends.
\<close>

theorem rejected_upload_stays_staged:
  "req_file example_upload_61 = Some [''app'', ''temp'', ''u.mp4''] \<and>
   reply (post_extract_keyframes example_cfg example_world example_upload_61 example_fs) =
     Some (Response 400 (ErrorBody ''Interval must be between 1 and 60 seconds'' None)) \<and>
   existsSync (fs_done (post_extract_keyframes example_cfg example_world example_upload_61 example_fs))
     ([''app'', ''temp'', ''u.mp4''], False)"
  by code_simp

text \<open>
  The same happens to the file the write stream opened when the download fails:
  \<open>downloadVideo\<close> throws before the handler's \<open>videoPath\<close> is assigned.
\<close>

theorem failed_download_stays_staged:
  "\<not> existsSync example_fs ([''app'', ''temp'', ''0b9d6c1e-5d4a-4b7c-9e1f-0a2b3c4d5e6f.mp4''], False) \<and>
   reply (post_extract_keyframes example_cfg example_world example_by_url example_fs) =
     Some (Response 400 (ErrorBody ''Failed to download video from URL''
                           (Some ''timeout of 60000ms exceeded''))) \<and>
   existsSync (fs_done (post_extract_keyframes example_cfg example_world example_by_url example_fs))
     ([''app'', ''temp'', ''0b9d6c1e-5d4a-4b7c-9e1f-0a2b3c4d5e6f.mp4''], False)"
  by code_simp

section \<open>Ordering the frames\<close>

lemma char_code_char_of: "n < 256 \<Longrightarrow> char_code (char_of n) = n"
  by (simp add: char_code_def)

lemma dec_nonempty: "dec n \<noteq> []"
  by (subst dec.simps) simp

lemma dec_digits: "list_all is_digit (dec n)"
proof (induction n rule: dec.induct)
  case (1 n)
  show ?case
  proof (cases "n < 10")
    case True
    then show ?thesis by (subst dec.simps) (simp add: is_digit_def char_code_char_of)
  next
    case False
    have "n mod 10 < 10" by simp
    then have "is_digit (char_of (48 + n mod 10))"
      by (simp add: is_digit_def char_code_char_of)
    with False 1 show ?thesis by (subst dec.simps) simp
  qed
qed

lemma digits_value_snoc:
  "digits_value r (ds @ [c]) = r * digits_value r ds + digit_val c"
  by (simp add: digits_value_def)

lemma digit_val_char_of: "k < 10 \<Longrightarrow> digit_val (char_of (48 + k)) = k"
  by (simp add: digit_val_def digit_of_code_def char_code_char_of)

lemma digits_value_dec: "digits_value 10 (dec n) = n"
proof (induction n rule: dec.induct)
  case (1 n)
  show ?case
  proof (cases "n < 10")
    case True
    then show ?thesis
      by (subst dec.simps) (simp add: digits_value_def digit_val_char_of)
  next
    case False
    with 1 have "digits_value 10 (dec (n div 10)) = n div 10" by simp
    with False show ?thesis
      by (subst dec.simps) (simp add: digits_value_snoc digit_val_char_of)
  qed
qed

lemma dec_no_sep: "CHR ''/'' \<notin> set (dec n)"
proof
  assume "CHR ''/'' \<in> set (dec n)"
  with dec_digits [of n] have "is_digit CHR ''/''" by (auto simp: list_all_iff)
  then show False by (simp add: is_digit_def char_code_def)
qed

lemma match_digits_frame_name: "match_digits (frame_name n) = Some (dec n)"
proof -
  have d: "dropWhile (\<lambda>c. \<not> is_digit c) (frame_name n) = dec n @ ''.jpg''"
  proof -
    have "dec n = hd (dec n) # tl (dec n)" using dec_nonempty by simp
    moreover have "is_digit (hd (dec n))"
      using dec_digits [of n] dec_nonempty [of n] by (cases "dec n") simp_all
    ultimately have "dropWhile (\<lambda>c. \<not> is_digit c) (dec n @ ''.jpg'') = dec n @ ''.jpg''"
      by (metis append_Cons dropWhile.simps(2))
    then show ?thesis by (simp add: frame_name_def is_digit_def char_code_def)
  qed
  have "takeWhile is_digit (dec n @ ''.jpg'') = dec n"
    using dec_digits [of n]
    by (simp add: takeWhile_append2 list_all_iff is_digit_def char_code_def)
  with d show ?thesis by (simp add: match_digits_def dec_nonempty)
qed

lemma frame_number_frame_name: "frame_number (frame_name n) = n"
  by (simp add: frame_number_def match_digits_frame_name digits_value_dec)

lemma bitlen_le: "bitlen n \<le> k \<longleftrightarrow> n < 2 ^ k"
proof (induction n arbitrary: k rule: bitlen.induct)
  case (1 n)
  show ?case
  proof (cases "n = 0")
    case True
    then show ?thesis by (subst bitlen.simps) simp
  next
    case False
    show ?thesis
    proof (cases k)
      case 0
      with False show ?thesis by (subst bitlen.simps) simp
    next
      case (Suc j)
      from 1 [OF False, of j] have "bitlen (n div 2) \<le> j \<longleftrightarrow> n div 2 < 2 ^ j" .
      also have "\<dots> \<longleftrightarrow> n < 2 ^ Suc j" by auto
      finally show ?thesis using False Suc by (subst bitlen.simps) simp
    qed
  qed
qed

lemma frame_index_frame_name: "n < 2 ^ 53 \<Longrightarrow> frame_index (frame_name n) = n"
  by (simp add: frame_index_def to_double_def frame_number_frame_name bitlen_le)

lemma prefix_frame_name: "prefix ''frame_'' (frame_name n)"
  by (simp add: frame_name_def)

lemma plain_frame_name: "plain_segment (frame_name n)"
  using dec_no_sep [of n] by (simp add: plain_segment_def frame_name_def)

lemma path_join_plain:
  "plain_segment s \<Longrightarrow> path_join base [s] = (base @ [s], False)"
  using path_join_snd_plain [of "[s]" base]
  by (simp add: prod_eq_iff path_join_segs norm_plain)

lemma sort_key_map_inj:
  "sort_key f (map g xs) = map g (sort_key (\<lambda>x. f (g x)) xs)"
proof (induction xs)
  case Nil
  then show ?case by simp
next
  case (Cons x xs)
  have ins: "insort_key f (g x) (map g ys) = map g (insort_key (\<lambda>x. f (g x)) x ys)" for ys
    by (induction ys) simp_all
  from Cons show ?case by (simp add: ins)
qed

lemma insort_key_agree:
  assumes "f x = g x" and "\<forall>y\<in>set ys. f y = g y"
  shows "insort_key f x ys = insort_key g x ys"
  using assms by (induction ys) simp_all

lemma sort_key_agree:
  assumes "\<forall>x\<in>set xs. f x = g x"
  shows "sort_key f xs = sort_key g xs"
  using assms
proof (induction xs)
  case Nil
  then show ?case by simp
next
  case (Cons x xs)
  then have ih: "sort_key f xs = sort_key g xs" by simp
  have "insort_key f x (sort_key g xs) = insort_key g x (sort_key g xs)"
    using Cons.prems by (intro insort_key_agree) simp_all
  with ih show ?case by simp
qed

lemma sort_frame_names:
  assumes "\<forall>n\<in>set ns. n < 2 ^ 53"
  shows "sort_key frame_index (map frame_name ns) = map frame_name (sort ns)"
proof -
  have "sort_key (\<lambda>n. frame_index (frame_name n)) ns = sort_key (\<lambda>n. n) ns"
    using assms by (intro sort_key_agree) (simp add: frame_index_frame_name)
  then show ?thesis by (simp add: sort_key_map_inj)
qed

lemma sort_frames_names:
  assumes "length ns \<le> 1 \<or> (\<forall>n\<in>set ns. n < 2 ^ 53)"
  shows "sort_frames (map frame_name ns) = Some (map frame_name (sort ns))"
proof (cases "length ns \<le> 1")
  case True
  then have "sort ns = ns" by (cases ns) auto
  with True show ?thesis by (simp add: sort_frames_def)
next
  case False
  with assms have b: "\<forall>n\<in>set ns. n < 2 ^ 53" by blast
  have "list_all (\<lambda>f. match_digits f \<noteq> None) (map frame_name ns)"
    by (simp add: list_all_iff match_digits_frame_name)
  with False show ?thesis by (simp add: sort_frames_def sort_frame_names [OF b])
qed

lemma frame_files_names:
  assumes "filter (\<lambda>f. prefix ''frame_'' f) files = map frame_name ns"
    and "length ns \<le> 1 \<or> (\<forall>n\<in>set ns. n < 2 ^ 53)"
  shows "frame_files outputDir files =
           Some (map (\<lambda>n. (fst outputDir @ [frame_name n], False)) (sort ns))"
  using assms(1) sort_frames_names [OF assms(2)]
  by (simp add: frame_files_def path_join_plain plain_frame_name comp_def)

lemma extractKeyframes_end:
  assumes "fs_readdir (engine_write outputDir written fs) outputDir = Inr files"
    and "frame_files outputDir files = Some paths"
  shows "extractKeyframes (EngineEnd written) videoPath interval outputDir fs =
           (Resolved paths, engine_write outputDir written fs)"
  using assms by (simp add: extractKeyframes_def Let_def)

lemma sort_three: "mset ns = {#2, 10, 1#} \<Longrightarrow> sort ns = [1, 2, 10::nat]"
proof -
  assume m: "mset ns = {#2, 10, 1#}"
  have "mset [1, 2, 10::nat] = mset ns" using m by (simp add: ac_simps)
  moreover have "sorted [1, 2, 10::nat]" by simp
  ultimately show ?thesis by (metis properties_for_sort)
qed

lemma three_frames:
  assumes m: "mset listing = {#''frame_2.jpg'', ''frame_10.jpg'', ''frame_1.jpg''#}"
  shows "frame_files outputDir listing =
        Some [(fst outputDir @ [''frame_1.jpg''], False),
              (fst outputDir @ [''frame_2.jpg''], False),
              (fst outputDir @ [''frame_10.jpg''], False)]"
proof -
  have names: "frame_name 2 = ''frame_2.jpg''" "frame_name 10 = ''frame_10.jpg''"
    "frame_name 1 = ''frame_1.jpg''"
    by code_simp+
  have name1: "frame_name (Suc 0) = ''frame_1.jpg''" using names(3) by simp
  from m have elems: "set listing = {frame_name 2, frame_name 10, frame_name 1}"
    unfolding names by (metis set_mset_mset set_mset_add_mset_insert set_mset_empty)
  define ns where "ns = map frame_number listing"
  have "frame_name (frame_number f) = f" if "f \<in> set listing" for f
    using that elems by (auto simp: frame_number_frame_name)
  then have named: "map frame_name ns = listing"
    unfolding ns_def by (simp add: map_idI)
  have "mset ns = image_mset frame_number (mset listing)" by (simp add: ns_def)
  also have "\<dots> = {#2, 10, 1#}"
    unfolding m names [symmetric] by (simp add: frame_number_frame_name)
  finally have ms: "mset ns = {#2, 10, 1#}" .
  then have srt: "sort ns = [1, 2, 10]" by (rule sort_three)
  from ms have "set ns = {2, 10, 1}"
    by (metis set_mset_mset set_mset_add_mset_insert set_mset_empty)
  then have bound: "length ns \<le> 1 \<or> (\<forall>n\<in>set ns. n < 2 ^ 53)" by simp
  have "filter (\<lambda>f. prefix ''frame_'' f) listing = map frame_name ns"
    unfolding named using elems by (auto simp: filter_id_conv prefix_frame_name)
  from frame_files_names [OF this bound, of outputDir] srt
  show ?thesis by (simp add: names name1)
qed

text \<open>
  Claim C6. When the engine has ended and the entries of the output directory named
  \<open>frame_...\<close> are the frames \<open>frame_<n>.jpg\<close> of the indices \<open>ns\<close>, whatever else the
  directory holds and in whatever order it is listed, \<open>extractKeyframes\<close> resolves with
  exactly those frames, as paths in the output directory, in ascending order of \<open>n\<close>.
  The indices are below \<open>2^53\<close>, where the numbers the comparator subtracts are the
  indices themselves. So every listing of \<open>frame_2.jpg\<close>, \<open>frame_10.jpg\<close>, \<open>frame_1.jpg\<close>
  gives \<open>frame_1\<close>, \<open>frame_2\<close>, \<open>frame_10\<close>.
\<close>

theorem extractKeyframes_sorted:
  "(fs_readdir (engine_write outputDir written fs) outputDir = Inr files \<and>
    filter (\<lambda>f. prefix ''frame_'' f) files = map frame_name ns \<and>
    (\<forall>n\<in>set ns. n < 2 ^ 53) \<longrightarrow>
      extractKeyframes (EngineEnd written) videoPath interval outputDir fs =
        (Resolved (map (\<lambda>n. (fst outputDir @ [frame_name n], False)) (sort ns)),
         engine_write outputDir written fs)) \<and>
   (fs_readdir (engine_write outputDir written fs) outputDir = Inr listing \<and>
    mset listing = {#''frame_2.jpg'', ''frame_10.jpg'', ''frame_1.jpg''#} \<longrightarrow>
      extractKeyframes (EngineEnd written) videoPath interval outputDir fs =
        (Resolved [(fst outputDir @ [''frame_1.jpg''], False),
                   (fst outputDir @ [''frame_2.jpg''], False),
                   (fst outputDir @ [''frame_10.jpg''], False)],
         engine_write outputDir written fs))"
proof (intro conjI impI)
  assume a: "fs_readdir (engine_write outputDir written fs) outputDir = Inr files \<and>
    filter (\<lambda>f. prefix ''frame_'' f) files = map frame_name ns \<and>
    (\<forall>n\<in>set ns. n < 2 ^ 53)"
  then have "frame_files outputDir files =
      Some (map (\<lambda>n. (fst outputDir @ [frame_name n], False)) (sort ns))"
    by (intro frame_files_names) simp_all
  with a show "extractKeyframes (EngineEnd written) videoPath interval outputDir fs =
        (Resolved (map (\<lambda>n. (fst outputDir @ [frame_name n], False)) (sort ns)),
         engine_write outputDir written fs)"
    by (intro extractKeyframes_end) simp_all
next
  assume a: "fs_readdir (engine_write outputDir written fs) outputDir = Inr listing \<and>
    mset listing = {#''frame_2.jpg'', ''frame_10.jpg'', ''frame_1.jpg''#}"
  then have "frame_files outputDir listing =
        Some [(fst outputDir @ [''frame_1.jpg''], False),
              (fst outputDir @ [''frame_2.jpg''], False),
              (fst outputDir @ [''frame_10.jpg''], False)]"
    by (intro three_frames) simp
  with a show "extractKeyframes (EngineEnd written) videoPath interval outputDir fs =
        (Resolved [(fst outputDir @ [''frame_1.jpg''], False),
                   (fst outputDir @ [''frame_2.jpg''], False),
                   (fst outputDir @ [''frame_10.jpg''], False)],
         engine_write outputDir written fs)"
    by (intro extractKeyframes_end) simp_all
qed

theorem extractKeyframes_sorted_witness:
  "fs_readdir (engine_write ([''app'', ''uploads'', ''job''], False) [2, 10, 1] example_frames_fs)
       ([''app'', ''uploads'', ''job''], False) =
     Inr [''notes.txt'', ''frame_2.jpg'', ''frame_10.jpg'', ''frame_1.jpg''] \<and>
   filter (\<lambda>f. prefix ''frame_'' f) [''notes.txt'', ''frame_2.jpg'', ''frame_10.jpg'', ''frame_1.jpg''] =
     map frame_name [2, 10, 1] \<and>
   fst (extractKeyframes (EngineEnd [2, 10, 1]) ([''app'', ''temp'', ''u.mp4''], False) 5
          ([''app'', ''uploads'', ''job''], False) example_frames_fs) =
     Resolved [([''app'', ''uploads'', ''job'', ''frame_1.jpg''], False),
               ([''app'', ''uploads'', ''job'', ''frame_2.jpg''], False),
               ([''app'', ''uploads'', ''job'', ''frame_10.jpg''], False)] \<and>
   fs_readdir (engine_write ([''app'', ''uploads'', ''job''], False) [10, 2] example_fs)
       ([''app'', ''uploads'', ''job''], False) =
     Inr [''frame_1.jpg'', ''frame_10.jpg'', ''frame_2.jpg''] \<and>
   mset [''frame_1.jpg'', ''frame_10.jpg'', ''frame_2.jpg''] =
     {#''frame_2.jpg'', ''frame_10.jpg'', ''frame_1.jpg''#} \<and>
   fst (extractKeyframes (EngineEnd [10, 2]) ([''app'', ''temp'', ''u.mp4''], False) 5
          ([''app'', ''uploads'', ''job''], False) example_fs) =
     Resolved [([''app'', ''uploads'', ''job'', ''frame_1.jpg''], False),
               ([''app'', ''uploads'', ''job'', ''frame_2.jpg''], False),
               ([''app'', ''uploads'', ''job'', ''frame_10.jpg''], False)]"
proof -
  have r1: "fs_readdir (engine_write ([''app'', ''uploads'', ''job''], False) [2, 10, 1] example_frames_fs)
       ([''app'', ''uploads'', ''job''], False) =
     Inr [''notes.txt'', ''frame_2.jpg'', ''frame_10.jpg'', ''frame_1.jpg'']"
    by code_simp
  have f: "filter (\<lambda>f. prefix ''frame_'' f)
             [''notes.txt'', ''frame_2.jpg'', ''frame_10.jpg'', ''frame_1.jpg''] =
           map frame_name [2, 10, 1]"
    by code_simp
  have b: "\<forall>n\<in>set [2, 10, 1::nat]. n < 2 ^ 53" by simp
  have r2: "fs_readdir (engine_write ([''app'', ''uploads'', ''job''], False) [10, 2] example_fs)
       ([''app'', ''uploads'', ''job''], False) =
     Inr [''frame_1.jpg'', ''frame_10.jpg'', ''frame_2.jpg'']"
    by code_simp
  have m: "mset [''frame_1.jpg'', ''frame_10.jpg'', ''frame_2.jpg''] =
     {#''frame_2.jpg'', ''frame_10.jpg'', ''frame_1.jpg''#}"
    by simp
  have names: "map frame_name (sort [2, 10, 1]) = [''frame_1.jpg'', ''frame_2.jpg'', ''frame_10.jpg'']"
    by code_simp
  note a = extractKeyframes_sorted [of "([''app'', ''uploads'', ''job''], False)" "[2, 10, 1]"
      example_frames_fs "[''notes.txt'', ''frame_2.jpg'', ''frame_10.jpg'', ''frame_1.jpg'']"
      "[2, 10, 1]" "([''app'', ''temp'', ''u.mp4''], False)" 5]
  note c = extractKeyframes_sorted [of "([''app'', ''uploads'', ''job''], False)" "[10, 2]"
      example_fs _ _ "([''app'', ''temp'', ''u.mp4''], False)" 5
      "[''frame_1.jpg'', ''frame_10.jpg'', ''frame_2.jpg'']"]
  from a r1 f b
  have "extractKeyframes (EngineEnd [2, 10, 1]) ([''app'', ''temp'', ''u.mp4''], False) 5
          ([''app'', ''uploads'', ''job''], False) example_frames_fs =
        (Resolved (map (\<lambda>n. (fst ([''app'', ''uploads'', ''job''], False) @ [frame_name n], False))
                     (sort [2, 10, 1])),
         engine_write ([''app'', ''uploads'', ''job''], False) [2, 10, 1] example_frames_fs)"
    by blast
  then have 1: "fst (extractKeyframes (EngineEnd [2, 10, 1]) ([''app'', ''temp'', ''u.mp4''], False) 5
          ([''app'', ''uploads'', ''job''], False) example_frames_fs) =
     Resolved (map (\<lambda>f. ([''app'', ''uploads'', ''job''] @ [f], False))
                 (map frame_name (sort [2, 10, 1])))"
    by (simp add: comp_def)
  from c r2 m
  have "extractKeyframes (EngineEnd [10, 2]) ([''app'', ''temp'', ''u.mp4''], False) 5
          ([''app'', ''uploads'', ''job''], False) example_fs =
        (Resolved [(fst ([''app'', ''uploads'', ''job''], False) @ [''frame_1.jpg''], False),
                   (fst ([''app'', ''uploads'', ''job''], False) @ [''frame_2.jpg''], False),
                   (fst ([''app'', ''uploads'', ''job''], False) @ [''frame_10.jpg''], False)],
         engine_write ([''app'', ''uploads'', ''job''], False) [10, 2] example_fs)"
    by blast
  then have 2: "fst (extractKeyframes (EngineEnd [10, 2]) ([''app'', ''temp'', ''u.mp4''], False) 5
          ([''app'', ''uploads'', ''job''], False) example_fs) =
     Resolved [([''app'', ''uploads'', ''job'', ''frame_1.jpg''], False),
               ([''app'', ''uploads'', ''job'', ''frame_2.jpg''], False),
               ([''app'', ''uploads'', ''job'', ''frame_10.jpg''], False)]"
    by simp
  from 1 have 1: "fst (extractKeyframes (EngineEnd [2, 10, 1]) ([''app'', ''temp'', ''u.mp4''], False) 5
          ([''app'', ''uploads'', ''job''], False) example_frames_fs) =
     Resolved [([''app'', ''uploads'', ''job'', ''frame_1.jpg''], False),
               ([''app'', ''uploads'', ''job'', ''frame_2.jpg''], False),
               ([''app'', ''uploads'', ''job'', ''frame_10.jpg''], False)]"
    unfolding names by simp
  from r1 f r2 m 1 2 show ?thesis by blast
qed

section \<open>How the operations change the file system\<close>

lemma stat_cong:
  assumes "\<forall>k\<le>length (fst pt). node_at fs' (take k (fst pt)) = node_at fs (take k (fst pt))"
  shows "stat fs' pt = stat fs pt"
proof -
  have eq: "node_at fs' (take k (fst pt)) = node_at fs (take k (fst pt))"
    if "k \<le> length (fst pt)" for k
    using that assms by simp
  have feq: "find (\<lambda>k. node_at fs' (take k (fst pt)) \<noteq> Some Dir) [0..<length (fst pt)] =
             find (\<lambda>k. node_at fs (take k (fst pt)) \<noteq> Some Dir) [0..<length (fst pt)]"
    by (rule find_cong) (simp_all add: eq)
  have fin: "node_at fs' (fst pt) = node_at fs (fst pt)"
    using eq [of "length (fst pt)"] by simp
  show ?thesis
  proof (cases "find (\<lambda>k. node_at fs (take k (fst pt)) \<noteq> Some Dir) [0..<length (fst pt)]")
    case None
    with feq fin show ?thesis by (simp add: stat_def)
  next
    case (Some k)
    then have "k < length (fst pt)" by (auto simp: find_Some_iff)
    then have "node_at fs' (take k (fst pt)) = node_at fs (take k (fst pt))"
      using eq [of k] by simp
    with feq Some show ?thesis by (simp add: stat_def)
  qed
qed

lemma map_of_append_cases:
  "map_of (xs @ ys) q = (case map_of xs q of None \<Rightarrow> map_of ys q | Some v \<Rightarrow> Some v)"
  by (simp add: map_add_def split: option.splits)

lemma map_of_new_dirs:
  "map_of (map (\<lambda>k. (take k p, Dir)) (filter Q ks)) q =
     (if \<exists>k\<in>set ks. Q k \<and> take k p = q then Some Dir else None)"
  by (induction ks) auto

lemma node_at_mkdir:
  assumes "fs_mkdir fs pt = Inr fs'"
  shows "node_at fs' q =
     (if node_at fs q = None \<and> prefix q (fst pt) then Some Dir else node_at fs q)"
proof -
  define p where "p = fst pt"
  define new where "new = map (\<lambda>k. (take k p, Dir))
                (filter (\<lambda>k. node_at fs (take k p) = None) [1..<Suc (length p)])"
  from assms have fs': "fs' = fs @ new"
    by (auto simp: fs_mkdir_def Let_def new_def p_def split: if_splits)
  show ?thesis
  proof (cases "q = []")
    case True
    then show ?thesis by (simp add: node_at_def)
  next
    case False
    have pre: "(\<exists>k\<in>set [1..<Suc (length p)]. node_at fs (take k p) = None \<and> take k p = q) \<longleftrightarrow>
               node_at fs q = None \<and> prefix q p"
    proof
      assume "\<exists>k\<in>set [1..<Suc (length p)]. node_at fs (take k p) = None \<and> take k p = q"
      then show "node_at fs q = None \<and> prefix q p" by (auto simp: take_is_prefix)
    next
      assume a: "node_at fs q = None \<and> prefix q p"
      then obtain r where r: "p = q @ r" by (auto simp: prefix_def)
      from False have "1 \<le> length q" by (cases q) simp_all
      moreover from r have "length q \<le> length p" by simp
      ultimately have "length q \<in> set [1..<Suc (length p)]" by auto
      moreover from r have "take (length q) p = q" by simp
      ultimately show "\<exists>k\<in>set [1..<Suc (length p)]. node_at fs (take k p) = None \<and> take k p = q"
        using a by metis
    qed
    have new: "map_of new q = (if node_at fs q = None \<and> prefix q p then Some Dir else None)"
      unfolding new_def map_of_new_dirs pre ..
    have "node_at fs' q = (case map_of fs q of None \<Rightarrow> map_of new q | Some v \<Rightarrow> Some v)"
      using False unfolding node_at_def fs' map_of_append_cases by simp
    with new False show ?thesis
      unfolding p_def by (auto simp: node_at_def split: option.splits)
  qed
qed

lemma file_above_iff:
  "file_above fs p \<longleftrightarrow> (\<exists>k<length p. node_at fs (take k p) = Some File)"
  by (auto simp: file_above_def list_ex_iff)

lemma mkdir_makes_dir:
  assumes "fs_mkdir fs pt = Inr fs'"
  shows "stat fs' (fst pt, False) = Inr Dir"
proof -
  let ?p = "fst pt"
  from assms have nf: "\<not> file_above fs ?p" and nl: "node_at fs ?p \<noteq> Some File"
    by (auto simp: fs_mkdir_def Let_def split: if_splits)
  have dir: "node_at fs' (take k ?p) = Some Dir" if "k \<le> length ?p" for k
  proof -
    have "node_at fs (take k ?p) \<noteq> Some File"
    proof (cases "k < length ?p")
      case True
      with nf show ?thesis by (auto simp: file_above_iff)
    next
      case False
      with that nl show ?thesis by simp
    qed
    then have "node_at fs (take k ?p) = None \<or> node_at fs (take k ?p) = Some Dir"
      by (cases "node_at fs (take k ?p)") (auto intro: node.exhaust)
    then show ?thesis
      by (auto simp: node_at_mkdir [OF assms] take_is_prefix)
  qed
  have "node_at fs' ?p = Some Dir" using dir [of "length ?p"] by simp
  moreover have "\<forall>k<length ?p. node_at fs' (take k ?p) = Some Dir" using dir by simp
  ultimately show ?thesis by (simp add: stat_Inr_iff)
qed

lemma node_at_create:
  assumes "fs_create fs pt = Inr fs'"
  shows "node_at fs' q = (if q = fst pt then Some File else node_at fs q)"
proof -
  from assms have ne: "fst pt \<noteq> []"
    and fs': "fs' = filter (\<lambda>e. fst e \<noteq> fst pt) fs @ [(fst pt, File)]"
    by (auto simp: fs_create_def Let_def split: if_splits sum.splits node.splits)
  show ?thesis
  proof (cases "q = []")
    case True
    with ne show ?thesis by (auto simp: node_at_def)
  next
    case False
    have "map_of (filter (\<lambda>e. fst e \<noteq> fst pt) fs) q = (if q \<noteq> fst pt then map_of fs q else None)"
      by (rule map_of_filter_fst [where P = "\<lambda>q. q \<noteq> fst pt"])
    with False show ?thesis
      by (auto simp: node_at_def fs' map_add_def split: option.splits)
  qed
qed

lemma create_succeeds:
  assumes "stat fs (butlast p, False) = Inr Dir" and "p \<noteq> []" and "node_at fs p \<noteq> Some Dir"
  shows "fs_create fs (p, False) = Inr (filter (\<lambda>e. fst e \<noteq> p) fs @ [(p, File)])"
  using assms by (simp add: fs_create_def Let_def)

lemma node_at_unlink:
  assumes "fs_unlink fs pt = Inr fs'"
  shows "node_at fs' q = (if q = fst pt then None else node_at fs q)"
proof -
  from assms have st: "stat fs pt = Inr File"
    and fs': "fs' = filter (\<lambda>e. fst e \<noteq> fst pt) fs"
    by (auto simp: fs_unlink_def split: sum.splits node.splits)
  from st have "node_at fs (fst pt) = Some File" by (simp add: stat_Inr_iff)
  then have "fst pt \<noteq> []" by (auto simp: node_at_def)
  then show ?thesis by (simp add: fs' node_at_remove_entry node_at_root)
qed

lemma cleanup_removes:
  assumes "node_at fs (fst vp) \<noteq> Some Dir"
  shows "\<not> existsSync (cleanup vp fs) vp"
proof (cases "fs_unlink fs vp")
  case (Inl e)
  then have "cleanup vp fs = fs" by (simp add: cleanup_def)
  moreover have "\<not> existsSync fs vp"
  proof (cases "stat fs vp")
    case I: (Inl e')
    then show ?thesis by (simp add: existsSync_def)
  next
    case (Inr n)
    with Inl have "n = Dir" by (cases n) (simp_all add: fs_unlink_def)
    with Inr have "node_at fs (fst vp) = Some Dir" by (simp add: stat_Inr_iff)
    with assms show ?thesis by simp
  qed
  ultimately show ?thesis by simp
next
  case (Inr fs')
  then have "cleanup vp fs = fs'" by (simp add: cleanup_def)
  moreover have "node_at fs' (fst vp) = None" by (simp add: node_at_unlink [OF Inr])
  ultimately show ?thesis by (simp add: existsSync_iff)
qed

lemma node_at_cleanup_other:
  "q \<noteq> fst vp \<Longrightarrow> node_at (cleanup vp fs) q = node_at fs q"
  by (cases "fs_unlink fs vp") (simp_all add: cleanup_def node_at_unlink)

lemma rm_removes:
  assumes "fst pt \<noteq> []"
  shows "\<not> existsSync (case fs_rm fs pt of Inl e \<Rightarrow> fs | Inr f \<Rightarrow> f) pt"
proof (cases "stat fs pt")
  case (Inl e)
  then have "(case fs_rm fs pt of Inl e \<Rightarrow> fs | Inr f \<Rightarrow> f) = fs"
    by (simp add: fs_rm_def)
  with Inl show ?thesis by (simp add: existsSync_def)
next
  case (Inr n)
  then have "(case fs_rm fs pt of Inl e \<Rightarrow> fs | Inr f \<Rightarrow> f) = remove_tree (fst pt) fs"
    by (simp add: fs_rm_def)
  moreover have "node_at (remove_tree (fst pt) fs) (fst pt) = None"
    using assms by (simp add: node_at_remove_tree)
  ultimately show ?thesis by (simp add: existsSync_iff)
qed

lemma node_at_rm_other:
  "\<not> prefix (fst pt) q \<Longrightarrow>
   node_at (case fs_rm fs pt of Inl e \<Rightarrow> fs | Inr f \<Rightarrow> f) q = node_at fs q"
  by (cases "stat fs pt") (simp_all add: fs_rm_def node_at_remove_tree node_at_root)

section \<open>The frames the engine writes\<close>

lemma frame_name_inj: "frame_name m = frame_name n \<Longrightarrow> m = n"
  by (metis frame_number_frame_name)

lemma frame_path: "path_join p [frame_name n] = (p @ [frame_name n], False)"
  by (simp add: path_join_plain plain_frame_name)

lemma engine_write_Nil: "engine_write od [] fs = fs"
  by (simp add: engine_write_def)

lemma engine_write_snoc:
  "engine_write od (ws @ [n]) fs =
     (case fs_create (engine_write od ws fs) (fst od @ [frame_name n], False) of
        Inl e \<Rightarrow> engine_write od ws fs | Inr f \<Rightarrow> f)"
  by (simp add: engine_write_def frame_path split: sum.splits)

lemma node_at_try_create:
  "q \<noteq> fst pt \<Longrightarrow>
   node_at (case fs_create fs pt of Inl e \<Rightarrow> fs | Inr f \<Rightarrow> f) q = node_at fs q"
  by (cases "fs_create fs pt") (simp_all add: node_at_create)

lemma node_at_engine_write:
  "q \<notin> (\<lambda>n. fst od @ [frame_name n]) ` set ws \<Longrightarrow>
   node_at (engine_write od ws fs) q = node_at fs q"
proof (induction ws rule: rev_induct)
  case Nil
  then show ?case by (simp add: engine_write_Nil)
next
  case (snoc n ws)
  then have "q \<noteq> fst (fst od @ [frame_name n], False)" by auto
  then have "node_at (engine_write od (ws @ [n]) fs) q = node_at (engine_write od ws fs) q"
    unfolding engine_write_snoc by (rule node_at_try_create)
  with snoc show ?case by simp
qed

lemma node_at_engine_write_outside:
  assumes "\<not> strict_prefix (fst od) q"
  shows "node_at (engine_write od ws fs) q = node_at fs q"
proof (rule node_at_engine_write)
  show "q \<notin> (\<lambda>n. fst od @ [frame_name n]) ` set ws"
    using assms by (auto simp: strict_prefix_def)
qed

lemma stat_engine_write_outside:
  assumes "\<not> strict_prefix (fst od) q"
  shows "stat (engine_write od ws fs) (q, tr) = stat fs (q, tr)"
proof (rule stat_cong, intro allI impI)
  fix k assume "k \<le> length (fst (q, tr))"
  have "\<not> strict_prefix (fst od) (take k q)"
  proof
    assume "strict_prefix (fst od) (take k q)"
    then have "strict_prefix (fst od) q"
      using take_is_prefix [of k q] by (metis prefix_order.less_le_trans)
    with assms show False by simp
  qed
  then show "node_at (engine_write od ws fs) (take k (fst (q, tr))) =
             node_at fs (take k (fst (q, tr)))"
    by (simp add: node_at_engine_write_outside)
qed

lemma engine_write_frame_present:
  assumes "stat fs (fst od, False) = Inr Dir" and "n \<in> set ws"
  shows "node_at (engine_write od ws fs) (fst od @ [frame_name n]) \<noteq> None"
  using assms(2)
proof (induction ws rule: rev_induct)
  case Nil
  then show ?case by simp
next
  case (snoc m ws)
  let ?f = "engine_write od ws fs"
  show ?case
  proof (cases "n = m")
    case True
    have dir: "stat ?f (fst od, False) = Inr Dir"
      using assms(1) by (simp add: stat_engine_write_outside)
    show ?thesis
    proof (cases "node_at ?f (fst od @ [frame_name m]) = Some Dir")
      case D: True
      then have "fs_create ?f (fst od @ [frame_name m], False) = Inl EISDIR"
        using dir by (simp add: fs_create_def Let_def)
      with D True show ?thesis by (simp add: engine_write_snoc)
    next
      case False
      with dir have "fs_create ?f (fst od @ [frame_name m], False) =
          Inr (filter (\<lambda>e. fst e \<noteq> fst od @ [frame_name m]) ?f @ [(fst od @ [frame_name m], File)])"
        by (simp add: create_succeeds)
      then show ?thesis
        using True node_at_create [of ?f "(fst od @ [frame_name m], False)"]
        by (simp add: engine_write_snoc)
    qed
  next
    case False
    with snoc have "node_at ?f (fst od @ [frame_name n]) \<noteq> None" by simp
    moreover from False have "fst od @ [frame_name n] \<noteq> fst (fst od @ [frame_name m], False)"
      by (auto dest: frame_name_inj)
    ultimately show ?thesis
      unfolding engine_write_snoc by (simp add: node_at_try_create)
  qed
qed

lemma frame_exists_after_write:
  assumes "stat fs (fst od, False) = Inr Dir" and "n \<in> set ws"
  shows "existsSync (engine_write od ws fs) (fst od @ [frame_name n], False)"
proof -
  let ?f = "engine_write od ws fs"
  have dir: "stat ?f (fst od, False) = Inr Dir"
    using assms(1) by (simp add: stat_engine_write_outside)
  then have above: "\<forall>k<length (fst od). node_at ?f (take k (fst od)) = Some Dir"
    and top: "node_at ?f (fst od) = Some Dir"
    by (simp_all add: stat_Inr_iff)
  have "node_at ?f (take k (fst od @ [frame_name n])) = Some Dir"
    if "k < length (fst od @ [frame_name n])" for k
  proof (cases "k < length (fst od)")
    case True
    with above show ?thesis by simp
  next
    case False
    with that have "k = length (fst od)" by simp
    with top show ?thesis by simp
  qed
  moreover have "node_at ?f (fst od @ [frame_name n]) \<noteq> None"
    using assms by (rule engine_write_frame_present)
  ultimately show ?thesis
    by (cases "node_at ?f (fst od @ [frame_name n])")
       (auto simp: existsSync_iff intro: node.exhaust)
qed

lemma filter_absent:
  "map_of fs p = None \<Longrightarrow> filter (\<lambda>e. fst e \<noteq> p) fs = fs"
  by (induction fs) (auto split: if_splits)

lemma children_append: "children p (xs @ ys) = children p xs @ children p ys"
  by (simp add: children_def)

lemma children_none:
  "children p fs = [] \<Longrightarrow> node_at fs (p @ [x]) = None"
proof -
  assume c: "children p fs = []"
  have "(p @ [x]) \<notin> fst ` set fs"
  proof
    assume "p @ [x] \<in> fst ` set fs"
    then obtain e where "e \<in> set fs" "fst e = p @ [x]" by auto
    then have "e \<in> set (filter (\<lambda>e. fst e \<noteq> [] \<and> butlast (fst e) = p) fs)" by simp
    with c show False by (simp add: children_def)
  qed
  then show ?thesis by (simp add: node_at_def map_of_eq_None_iff)
qed

lemma children_engine_write:
  assumes "stat fs (fst od, False) = Inr Dir" and "children (fst od) fs = []"
    and "distinct ws"
  shows "children (fst od) (engine_write od ws fs) = map frame_name ws"
  using assms(3)
proof (induction ws rule: rev_induct)
  case Nil
  then show ?case by (simp add: engine_write_Nil assms(2))
next
  case (snoc n ws)
  let ?f = "engine_write od ws fs"
  let ?p = "fst od @ [frame_name n]"
  from snoc have ih: "children (fst od) ?f = map frame_name ws" and new: "n \<notin> set ws"
    by simp_all
  have dir: "stat ?f (fst od, False) = Inr Dir"
    using assms(1) by (simp add: stat_engine_write_outside)
  have "?p \<notin> (\<lambda>n. fst od @ [frame_name n]) ` set ws"
    using new by (auto dest: frame_name_inj)
  then have "node_at ?f ?p = node_at fs ?p" by (rule node_at_engine_write)
  also have "\<dots> = None" using assms(2) by (rule children_none)
  finally have absent: "node_at ?f ?p = None" .
  then have m: "map_of ?f ?p = None" by (simp add: node_at_def)
  from dir absent have "fs_create ?f (?p, False) =
      Inr (filter (\<lambda>e. fst e \<noteq> ?p) ?f @ [(?p, File)])"
    by (simp add: create_succeeds)
  then have "engine_write od (ws @ [n]) fs = ?f @ [(?p, File)]"
    by (simp add: engine_write_snoc filter_absent [OF m])
  then show ?case
    by (simp add: children_append ih) (simp add: children_def)
qed

section \<open>Extraction from a staged video\<close>

lemma output_dir:
  "plain_segment vid \<Longrightarrow>
   path_join d [''uploads'', vid] = (d @ [''uploads'', vid], False)"
proof -
  assume p: "plain_segment vid"
  have u: "plain_segment ''uploads''" by (simp add: plain_segment_def)
  have "fst (path_join d [''uploads'', vid]) = d @ [''uploads'', vid]"
    using norm_plain [OF u, of d] norm_plain [OF p, of "d @ [''uploads'']"]
    by (simp add: path_join_segs)
  moreover have "snd (path_join d [''uploads'', vid]) = False"
    using p by (simp add: path_join_snd_plain)
  ultimately show ?thesis by (simp add: prod_eq_iff)
qed

lemma extract_staged_mkdir_fails:
  assumes "plain_segment (video_uuid w)"
    and "fs_mkdir fs (dirname cfg @ [''uploads'', video_uuid w], False) = Inl e"
  shows "extract_staged cfg w req i vp fs =
     \<lparr>reply = Some (Response 500 (ErrorBody ''Failed to extract keyframes''
                (Some (errno_message e ''mkdir''
                         (dirname cfg @ [''uploads'', video_uuid w], False))))),
      fs_replied = (case fs_rm fs (dirname cfg @ [''uploads'', video_uuid w], False) of
                      Inl e \<Rightarrow> fs | Inr f \<Rightarrow> f),
      fs_done = cleanup vp (case fs_rm fs (dirname cfg @ [''uploads'', video_uuid w], False) of
                      Inl e \<Rightarrow> fs | Inr f \<Rightarrow> f)\<rparr>"
  using assms by (simp add: extract_staged_def Let_def output_dir)

lemma extract_staged_engine_fails:
  assumes "plain_segment (video_uuid w)"
    and "fs_mkdir fs (dirname cfg @ [''uploads'', video_uuid w], False) = Inr fs1"
    and "engine w = EngineError msg ws"
  shows "extract_staged cfg w req i vp fs =
     \<lparr>reply = Some (Response 500 (ErrorBody ''Failed to extract keyframes''
                                   (Some (''FFmpeg error: '' @ msg)))),
      fs_replied =
        (case fs_rm (engine_write (dirname cfg @ [''uploads'', video_uuid w], False) ws fs1)
                (dirname cfg @ [''uploads'', video_uuid w], False) of
           Inl e \<Rightarrow> engine_write (dirname cfg @ [''uploads'', video_uuid w], False) ws fs1
         | Inr f \<Rightarrow> f),
      fs_done = cleanup vp
        (case fs_rm (engine_write (dirname cfg @ [''uploads'', video_uuid w], False) ws fs1)
                (dirname cfg @ [''uploads'', video_uuid w], False) of
           Inl e \<Rightarrow> engine_write (dirname cfg @ [''uploads'', video_uuid w], False) ws fs1
         | Inr f \<Rightarrow> f)\<rparr>"
  using assms by (simp add: extract_staged_def extractKeyframes_def Let_def output_dir)

lemma extract_staged_engine_ends:
  assumes "plain_segment (video_uuid w)"
    and "fs_mkdir fs (dirname cfg @ [''uploads'', video_uuid w], False) = Inr fs1"
    and "engine w = EngineEnd ws"
  shows "extract_staged cfg w req i vp fs =
     (let od = (dirname cfg @ [''uploads'', video_uuid w], False);
          fs2 = engine_write od ws fs1
      in case fs_readdir fs2 od of
           Inl e \<Rightarrow> \<lparr>reply = None, fs_replied = fs2, fs_done = fs2\<rparr>
         | Inr files \<Rightarrow>
             (case frame_files od files of
                None \<Rightarrow> \<lparr>reply = None, fs_replied = fs2, fs_done = fs2\<rparr>
              | Some paths \<Rightarrow>
                  \<lparr>reply = Some (Response 200
                     (ExtractOk (video_uuid w) i (length paths)
                        (map (frame_url (base_url cfg req) (video_uuid w)) paths))),
                   fs_replied = fs2, fs_done = cleanup vp fs2\<rparr>))"
  using assms
  by (simp add: extract_staged_def extractKeyframes_def Let_def output_dir
           split: sum.splits option.splits)

lemma stat_mkdir_existing:
  assumes "fs_mkdir fs pt = Inr fs'" and "stat fs (q, tr) = Inr n"
  shows "stat fs' (q, tr) = Inr n"
proof -
  have "node_at fs' (take k q) = node_at fs (take k q)" if "k \<le> length q" for k
  proof -
    have "node_at fs (take k q) \<noteq> None"
    proof (cases "k < length q")
      case True
      with assms(2) show ?thesis by (simp add: stat_Inr_iff)
    next
      case False
      with that assms(2) show ?thesis by (simp add: stat_Inr_iff)
    qed
    then show ?thesis by (simp add: node_at_mkdir [OF assms(1)])
  qed
  then have "stat fs' (q, tr) = stat fs (q, tr)" by (intro stat_cong) simp
  with assms(2) show ?thesis by simp
qed

lemma stat_rm_outside:
  assumes "\<not> prefix (fst pt) q"
  shows "stat (case fs_rm fs pt of Inl e \<Rightarrow> fs | Inr f \<Rightarrow> f) (q, tr) = stat fs (q, tr)"
proof (rule stat_cong, intro allI impI)
  fix k
  have "\<not> prefix (fst pt) (take k q)"
    using assms take_is_prefix [of k q] by (metis prefix_order.trans)
  then show "node_at (case fs_rm fs pt of Inl e \<Rightarrow> fs | Inr f \<Rightarrow> f) (take k (fst (q, tr))) =
             node_at fs (take k (fst (q, tr)))"
    by (simp add: node_at_rm_other)
qed

lemma stat_cleanup_outside:
  assumes "\<not> prefix (fst vp) q"
  shows "stat (cleanup vp fs) (q, tr) = stat fs (q, tr)"
proof (rule stat_cong, intro allI impI)
  fix k
  have "take k q \<noteq> fst vp"
    using assms take_is_prefix [of k q] by auto
  then show "node_at (cleanup vp fs) (take k (fst (q, tr))) = node_at fs (take k (fst (q, tr)))"
    by (simp add: node_at_cleanup_other)
qed

lemma stat_File_exists: "stat fs vp = Inr n \<Longrightarrow> existsSync fs vp"
  by (simp add: existsSync_def)

lemma rolled_back:
  assumes staged: "stat X vp = Inr File"
    and out: "\<not> prefix p (fst vp)" and up: "\<not> prefix (fst vp) p" and ne: "p \<noteq> []"
  shows "\<not> existsSync (case fs_rm X (p, False) of Inl e \<Rightarrow> X | Inr f \<Rightarrow> f) (p, False) \<and>
         existsSync (case fs_rm X (p, False) of Inl e \<Rightarrow> X | Inr f \<Rightarrow> f) vp \<and>
         \<not> existsSync (cleanup vp (case fs_rm X (p, False) of Inl e \<Rightarrow> X | Inr f \<Rightarrow> f)) (p, False) \<and>
         \<not> existsSync (cleanup vp (case fs_rm X (p, False) of Inl e \<Rightarrow> X | Inr f \<Rightarrow> f)) vp"
proof -
  let ?R = "case fs_rm X (p, False) of Inl e \<Rightarrow> X | Inr f \<Rightarrow> f"
  have gone: "\<not> existsSync ?R (p, False)"
    using rm_removes [of "(p, False)" X] ne by simp
  have "stat ?R (fst vp, snd vp) = stat X (fst vp, snd vp)"
    using stat_rm_outside [of "(p, False)" "fst vp" X "snd vp"] out by simp
  with staged have kept: "stat ?R vp = Inr File" by simp
  then have here: "existsSync ?R vp" by (rule stat_File_exists)
  from kept have "node_at ?R (fst vp) \<noteq> Some Dir" by (simp add: stat_Inr_iff)
  then have cleaned: "\<not> existsSync (cleanup vp ?R) vp" by (rule cleanup_removes)
  have "stat (cleanup vp ?R) (p, False) = stat ?R (p, False)"
    using up by (rule stat_cleanup_outside)
  with gone have "\<not> existsSync (cleanup vp ?R) (p, False)" by (simp add: existsSync_def)
  with gone here cleaned show ?thesis by blast
qed

lemma staged_survives:
  assumes mk: "fs_mkdir fs (p, False) = Inr fs1" and staged: "stat fs vp = Inr File"
    and out: "\<not> prefix p (fst vp)"
  shows "stat (engine_write (p, False) ws fs1) vp = Inr File"
proof -
  have "stat fs1 (fst vp, snd vp) = Inr File"
    using stat_mkdir_existing [OF mk, of "fst vp" "snd vp" File] staged by simp
  moreover have "\<not> strict_prefix (fst (p, False)) (fst vp)"
    using out by (simp add: strict_prefix_def)
  ultimately show ?thesis
    using stat_engine_write_outside [of "(p, False)" "fst vp" ws fs1 "snd vp"] by simp
qed

lemma staged_failure:
  assumes plain: "plain_segment (video_uuid w)"
    and eng: "engine w = EngineError msg ws"
    and staged: "stat fs vp = Inr File"
    and out: "\<not> prefix (dirname cfg @ [''uploads'', video_uuid w]) (fst vp)"
    and up: "\<not> prefix (fst vp) (dirname cfg @ [''uploads'', video_uuid w])"
  shows "(\<exists>m. reply (extract_staged cfg w req i vp fs) =
             Some (Response 500 (ErrorBody ''Failed to extract keyframes'' (Some m)))) \<and>
         \<not> existsSync (fs_replied (extract_staged cfg w req i vp fs))
             (dirname cfg @ [''uploads'', video_uuid w], False) \<and>
         existsSync (fs_replied (extract_staged cfg w req i vp fs)) vp \<and>
         \<not> existsSync (fs_done (extract_staged cfg w req i vp fs))
             (dirname cfg @ [''uploads'', video_uuid w], False) \<and>
         \<not> existsSync (fs_done (extract_staged cfg w req i vp fs)) vp"
proof (cases "fs_mkdir fs (dirname cfg @ [''uploads'', video_uuid w], False)")
  case (Inl e)
  show ?thesis
    unfolding extract_staged_mkdir_fails [OF plain Inl]
    using rolled_back [OF staged out up] by simp
next
  case (Inr fs1)
  have "stat (engine_write (dirname cfg @ [''uploads'', video_uuid w], False) ws fs1) vp = Inr File"
    using Inr staged out by (rule staged_survives)
  then show ?thesis
    unfolding extract_staged_engine_fails [OF plain Inr eng]
    using rolled_back [OF _ out up] by simp
qed

lemma staged_success_state:
  assumes plain: "plain_segment (video_uuid w)"
    and eng: "engine w = EngineEnd ws"
    and ok: "reply (extract_staged cfg w req i vp fs) = Some (Response 200 b)"
    and staged: "stat fs vp = Inr File"
    and out: "\<not> prefix (dirname cfg @ [''uploads'', video_uuid w]) (fst vp)"
    and up: "\<not> prefix (fst vp) (dirname cfg @ [''uploads'', video_uuid w])"
  shows "\<not> existsSync (fs_done (extract_staged cfg w req i vp fs)) vp \<and>
         stat (fs_done (extract_staged cfg w req i vp fs))
           (dirname cfg @ [''uploads'', video_uuid w], False) = Inr Dir \<and>
         (\<forall>n\<in>set ws. existsSync (fs_done (extract_staged cfg w req i vp fs))
            (dirname cfg @ [''uploads'', video_uuid w] @ [frame_name n], False))"
proof -
  let ?p = "dirname cfg @ [''uploads'', video_uuid w]"
  obtain fs1 where mk: "fs_mkdir fs (?p, False) = Inr fs1"
  proof (cases "fs_mkdir fs (?p, False)")
    case (Inl e)
    with ok show ?thesis by (simp add: extract_staged_mkdir_fails [OF plain Inl])
  next
    case (Inr f)
    then show ?thesis by (rule that)
  qed
  let ?fs2 = "engine_write (?p, False) ws fs1"
  have fin: "fs_done (extract_staged cfg w req i vp fs) = cleanup vp ?fs2"
    using ok unfolding extract_staged_engine_ends [OF plain mk eng]
    by (auto simp: Let_def split: sum.splits option.splits)
  have dir1: "stat fs1 (?p, False) = Inr Dir"
    using mkdir_makes_dir [OF mk] by simp
  then have dir2: "stat ?fs2 (?p, False) = Inr Dir"
    using stat_engine_write_outside [of "(?p, False)" ?p ws fs1 False] by simp
  have kept: "stat ?fs2 vp = Inr File" using mk staged out by (rule staged_survives)
  then have "node_at ?fs2 (fst vp) \<noteq> Some Dir" by (simp add: stat_Inr_iff)
  then have gone: "\<not> existsSync (cleanup vp ?fs2) vp" by (rule cleanup_removes)
  have dir3: "stat (cleanup vp ?fs2) (?p, False) = Inr Dir"
    using stat_cleanup_outside [OF up, of ?fs2 False] dir2 by simp
  have frames: "existsSync (cleanup vp ?fs2) (?p @ [frame_name n], False)" if "n \<in> set ws" for n
  proof -
    have "existsSync ?fs2 (?p @ [frame_name n], False)"
      using frame_exists_after_write [of fs1 "(?p, False)" n ws] dir1 that by simp
    moreover have "\<not> prefix (fst vp) (?p @ [frame_name n])"
    proof
      assume "prefix (fst vp) (?p @ [frame_name n])"
      then have "prefix (fst vp) ?p \<or> fst vp = ?p @ [frame_name n]"
        by (metis prefix_snoc)
      with up out show False by auto
    qed
    then have "stat (cleanup vp ?fs2) (?p @ [frame_name n], False) =
               stat ?fs2 (?p @ [frame_name n], False)"
      by (rule stat_cleanup_outside)
    ultimately show ?thesis by (simp add: existsSync_def)
  qed
  from gone dir3 frames show ?thesis unfolding fin by simp
qed

lemma children_fresh:
  assumes "list_all (\<lambda>e. \<not> prefix p (fst e)) fs"
  shows "children p fs = []"
proof -
  have "\<not> (fst e \<noteq> [] \<and> butlast (fst e) = p)" if "e \<in> set fs" for e
  proof
    assume a: "fst e \<noteq> [] \<and> butlast (fst e) = p"
    then have "prefix p (fst e)" by (metis prefixeq_butlast)
    with assms that show False by (auto simp: list_all_iff)
  qed
  then show ?thesis by (auto simp: children_def filter_empty_conv)
qed

lemma node_at_fresh:
  assumes "list_all (\<lambda>e. \<not> prefix p (fst e)) fs" and "p \<noteq> []"
  shows "node_at fs p = None"
proof -
  have "p \<notin> fst ` set fs" using assms(1) by (auto simp: list_all_iff)
  with assms(2) show ?thesis by (simp add: node_at_def map_of_eq_None_iff)
qed

lemma children_after_mkdir:
  assumes mk: "fs_mkdir fs (p, False) = Inr fs1" and c: "children p fs = []"
  shows "children p fs1 = []"
proof -
  from mk have fs1: "fs1 = fs @ map (\<lambda>k. (take k p, Dir))
      (filter (\<lambda>k. node_at fs (take k p) = None) [1..<Suc (length p)])"
    by (auto simp: fs_mkdir_def Let_def split: if_splits)
  have "\<not> (take k p \<noteq> [] \<and> butlast (take k p) = p)" for k
  proof
    assume a: "take k p \<noteq> [] \<and> butlast (take k p) = p"
    then have ne: "take k p \<noteq> []" and e: "butlast (take k p) = p" by blast+
    have m1: "length (take k p) \<le> length p" by simp
    have m2: "length (take k p) \<noteq> 0" using ne by (metis length_0_conv)
    have m3: "length (take k p) - 1 = length p" by (metis e length_butlast)
    from m1 m2 m3 show False by arith
  qed
  then have "children p (map (\<lambda>k. (take k p, Dir)) ks) = []" for ks
    by (simp add: children_def filter_empty_conv)
  with c show ?thesis by (simp add: fs1 children_append)
qed

lemma staged_success_reply:
  assumes plain: "plain_segment (video_uuid w)"
    and eng: "engine w = EngineEnd ws" and dist: "distinct ws"
    and bound: "length ws \<le> 1 \<or> (\<forall>n\<in>set ws. n < 2 ^ 53)"
    and clear: "\<not> file_above fs (dirname cfg @ [''uploads'', video_uuid w])"
    and fresh: "list_all (\<lambda>e. \<not> prefix (dirname cfg @ [''uploads'', video_uuid w]) (fst e)) fs"
  shows "reply (extract_staged cfg w req i vp fs) =
     Some (Response 200
       (ExtractOk (video_uuid w) i (length ws)
          (map (\<lambda>n. base_url cfg req @ ''/frames/'' @ video_uuid w @ ''/'' @ frame_name n)
               (sort ws))))"
proof -
  let ?p = "dirname cfg @ [''uploads'', video_uuid w]"
  have absent: "node_at fs ?p = None" using fresh by (rule node_at_fresh) simp
  with clear obtain fs1 where mk: "fs_mkdir fs (?p, False) = Inr fs1"
    by (simp add: fs_mkdir_def Let_def)
  let ?fs2 = "engine_write (?p, False) ws fs1"
  have dir1: "stat fs1 (?p, False) = Inr Dir" using mkdir_makes_dir [OF mk] by simp
  then have dir2: "stat ?fs2 (?p, False) = Inr Dir"
    using stat_engine_write_outside [of "(?p, False)" ?p ws fs1 False] by simp
  have "children ?p fs1 = []"
    using mk children_fresh [OF fresh] by (rule children_after_mkdir)
  then have "children ?p ?fs2 = map frame_name ws"
    using children_engine_write [of fs1 "(?p, False)" ws] dir1 dist by simp
  with dir2 have rd: "fs_readdir ?fs2 (?p, False) = Inr (map frame_name ws)"
    by (simp add: fs_readdir_def)
  have "filter (\<lambda>f. prefix ''frame_'' f) (map frame_name ws) = map frame_name ws"
    by (simp add: filter_id_conv prefix_frame_name)
  then have ff: "frame_files (?p, False) (map frame_name ws) =
      Some (map (\<lambda>n. (?p @ [frame_name n], False)) (sort ws))"
    using frame_files_names [of "map frame_name ws" ws "(?p, False)"] bound by simp
  show ?thesis
    unfolding extract_staged_engine_ends [OF plain mk eng]
    by (simp add: Let_def rd ff comp_def frame_url_def path_basename_def)
qed

section \<open>Acquisition\<close>

lemma temp_dir_eq: "temp_dir cfg = (dirname cfg @ [''temp''], False)"
proof -
  have "plain_segment ''temp''" by (simp add: plain_segment_def)
  then show ?thesis by (simp add: temp_dir_def path_join_plain)
qed

lemma plain_mp4: "CHR ''/'' \<notin> set u \<Longrightarrow> plain_segment (u @ ''.mp4'')"
  by (cases u) (auto simp: plain_segment_def)

lemma video_path_eq:
  "CHR ''/'' \<notin> set u \<Longrightarrow>
   path_join (dirname cfg @ [''temp'']) [u @ ''.mp4''] = (dirname cfg @ [''temp'', u @ ''.mp4''], False)"
  using path_join_plain [OF plain_mp4, of u "dirname cfg @ [''temp'']"] by simp

lemma download_resolved:
  assumes res: "fst (downloadVideo cfg w url fs) = Resolved vp"
    and u: "CHR ''/'' \<notin> set (download_uuid w)"
  shows "vp = (dirname cfg @ [''temp'', download_uuid w @ ''.mp4''], False) \<and>
         (\<exists>fsA. (fsA = fs \<or> fs_mkdir fs (dirname cfg @ [''temp''], False) = Inr fsA) \<and>
                fs_create fsA vp = Inr (snd (downloadVideo cfg w url fs)))"
proof -
  let ?t = "(dirname cfg @ [''temp''], False)"
  let ?v = "(dirname cfg @ [''temp'', download_uuid w @ ''.mp4''], False)"
  obtain fsA where a: "(if existsSync fs ?t then Inr fs else fs_mkdir fs ?t) = Inr fsA"
  proof (cases "if existsSync fs ?t then Inr fs else fs_mkdir fs ?t")
    case (Inl e)
    with res show ?thesis by (simp add: downloadVideo_def Let_def temp_dir_eq)
  next
    case (Inr f)
    then show ?thesis by (rule that)
  qed
  then have A: "fsA = fs \<or> fs_mkdir fs ?t = Inr fsA" by (auto split: if_splits)
  have unf: "downloadVideo cfg w url fs =
      (case fs_create fsA ?v of
         Inl e \<Rightarrow>
           (case download w of
              AxiosFails m \<Rightarrow> (Rejected m, fsA)
            | WriterFails m \<Rightarrow> (Pending, fsA)
            | Finished \<Rightarrow> (Pending, fsA)
            | Stalls \<Rightarrow> (Pending, fsA))
       | Inr f \<Rightarrow>
           (case download w of
              AxiosFails m \<Rightarrow> (Rejected m, f)
            | WriterFails m \<Rightarrow> (Rejected m, f)
            | Finished \<Rightarrow> (Resolved ?v, f)
            | Stalls \<Rightarrow> (Pending, f)))"
    using a u
    by (simp add: downloadVideo_def Let_def temp_dir_eq video_path_eq)
  from res have "vp = ?v \<and> fs_create fsA ?v = Inr (snd (downloadVideo cfg w url fs))"
    unfolding unf by (auto split: download_outcome.splits sum.splits)
  with A show ?thesis by blast
qed

lemma stat_after_create:
  assumes "fs_create fs (p, False) = Inr fs1"
  shows "stat fs1 (p, False) = Inr File"
proof -
  from assms have ne: "p \<noteq> []" and par: "stat fs (butlast p, False) = Inr Dir"
    by (auto simp: fs_create_def Let_def split: if_splits sum.splits node.splits)
  have "node_at fs1 (take k p) = Some Dir" if "k < length p" for k
  proof -
    from that have neq: "take k p \<noteq> p" by (metis length_take min.absorb4 less_irrefl)
    have "take k p = take k (butlast p)" using that by (simp add: take_butlast)
    moreover have "k \<le> length (butlast p)" using that by simp
    ultimately have "node_at fs (take k p) = Some Dir"
      using par by (cases "k < length (butlast p)") (auto simp: stat_Inr_iff)
    with neq show ?thesis using node_at_create [OF assms, of "take k p"] by simp
  qed
  moreover have "node_at fs1 p = Some File" using node_at_create [OF assms, of p] by simp
  ultimately show ?thesis by (simp add: stat_Inr_iff)
qed

lemma mkdir_entries:
  assumes "fs_mkdir fs (t, False) = Inr fsA" and "e \<in> set fsA"
  shows "e \<in> set fs \<or> prefix (fst e) t"
  using assms by (auto simp: fs_mkdir_def Let_def take_is_prefix split: if_splits)

lemma create_entries:
  assumes "fs_create fs (p, False) = Inr fs1" and "e \<in> set fs1"
  shows "e \<in> set fs \<or> fst e = p"
  using assms
  by (auto simp: fs_create_def Let_def split: if_splits sum.splits node.splits)

lemma download_keeps_fresh:
  assumes res: "fst (downloadVideo cfg w url fs) = Resolved vp"
    and u: "CHR ''/'' \<notin> set (download_uuid w)"
    and fresh: "list_all (\<lambda>e. \<not> prefix (dirname cfg @ [''uploads'', vid]) (fst e)) fs"
  shows "list_all (\<lambda>e. \<not> prefix (dirname cfg @ [''uploads'', vid]) (fst e))
           (snd (downloadVideo cfg w url fs))"
proof -
  let ?o = "dirname cfg @ [''uploads'', vid]"
  let ?t = "dirname cfg @ [''temp'']"
  let ?fs1 = "snd (downloadVideo cfg w url fs)"
  from download_resolved [OF res u] obtain fsA
    where vp: "vp = (dirname cfg @ [''temp'', download_uuid w @ ''.mp4''], False)"
      and A: "fsA = fs \<or> fs_mkdir fs (?t, False) = Inr fsA"
      and c: "fs_create fsA vp = Inr ?fs1"
    by blast
  have short: "\<not> prefix ?o q" if "prefix q ?t" for q
  proof
    assume "prefix ?o q"
    with that have "prefix ?o ?t" using prefix_order.trans by blast
    then have "length ?o \<le> length ?t" by (rule prefix_length_le)
    then show False by simp
  qed
  have "\<not> prefix ?o (fst e)" if e: "e \<in> set ?fs1" for e
  proof -
    from c e have "e \<in> set fsA \<or> fst e = fst vp"
      using create_entries [of fsA "fst vp" ?fs1 e] vp by simp
    then show ?thesis
    proof
      assume "fst e = fst vp"
      then show ?thesis by (simp add: vp)
    next
      assume "e \<in> set fsA"
      with A have "e \<in> set fs \<or> prefix (fst e) ?t"
        using mkdir_entries [of fs ?t fsA e] by blast
      with fresh short show ?thesis by (auto simp: list_all_iff)
    qed
  qed
  then show ?thesis by (simp add: list_all_iff)
qed

lemma download_keeps_clear:
  assumes res: "fst (downloadVideo cfg w url fs) = Resolved vp"
    and u: "CHR ''/'' \<notin> set (download_uuid w)"
    and clear: "\<not> file_above fs (dirname cfg @ [''uploads'', vid])"
  shows "\<not> file_above (snd (downloadVideo cfg w url fs)) (dirname cfg @ [''uploads'', vid])"
proof -
  let ?o = "dirname cfg @ [''uploads'', vid]"
  let ?t = "dirname cfg @ [''temp'']"
  let ?fs1 = "snd (downloadVideo cfg w url fs)"
  from download_resolved [OF res u] obtain fsA
    where vp: "vp = (dirname cfg @ [''temp'', download_uuid w @ ''.mp4''], False)"
      and A: "fsA = fs \<or> fs_mkdir fs (?t, False) = Inr fsA"
      and c: "fs_create fsA vp = Inr ?fs1"
    by blast
  have "node_at ?fs1 (take k ?o) \<noteq> Some File" if k: "k < length ?o" for k
  proof -
    from k have "length (take k ?o) < length (fst vp)" by (simp add: vp)
    then have "take k ?o \<noteq> fst vp" by (metis less_irrefl)
    then have 1: "node_at ?fs1 (take k ?o) = node_at fsA (take k ?o)"
      using node_at_create [OF c, of "take k ?o"] by simp
    from clear k have 2: "node_at fs (take k ?o) \<noteq> Some File"
      by (auto simp: file_above_iff)
    from A have "node_at fsA (take k ?o) \<noteq> Some File"
    proof
      assume "fsA = fs"
      with 2 show ?thesis by simp
    next
      assume "fs_mkdir fs (?t, False) = Inr fsA"
      from node_at_mkdir [OF this, of "take k ?o"] 2 show ?thesis by (auto split: if_splits)
    qed
    with 1 show ?thesis by simp
  qed
  then show ?thesis by (auto simp: file_above_iff)
qed

lemma acquired:
  assumes v: "1 \<le> interval_of (req_interval req)" "interval_of (req_interval req) \<le> 60"
    and acq: "(url_of req = Some url \<and> fst (downloadVideo cfg w url fs) = Resolved vp \<and>
               CHR ''/'' \<notin> set (download_uuid w)) \<or>
              (url_of req = None \<and> req_file req = Some (fst vp) \<and> snd vp = False \<and>
               fst vp = dirname cfg @ [''temp'', name] \<and> stat fs vp = Inr File)"
  shows "\<exists>fs1. post_extract_keyframes cfg w req fs =
                 extract_staged cfg w req (interval_of (req_interval req)) vp fs1 \<and>
               stat fs1 vp = Inr File \<and>
               \<not> prefix (dirname cfg @ [''uploads'', vid]) (fst vp) \<and>
               \<not> prefix (fst vp) (dirname cfg @ [''uploads'', vid]) \<and>
               (list_all (\<lambda>e. \<not> prefix (dirname cfg @ [''uploads'', vid]) (fst e)) fs \<longrightarrow>
                list_all (\<lambda>e. \<not> prefix (dirname cfg @ [''uploads'', vid]) (fst e)) fs1) \<and>
               (\<not> file_above fs (dirname cfg @ [''uploads'', vid]) \<longrightarrow>
                \<not> file_above fs1 (dirname cfg @ [''uploads'', vid]))"
  using acq
proof
  assume a: "url_of req = Some url \<and> fst (downloadVideo cfg w url fs) = Resolved vp \<and>
               CHR ''/'' \<notin> set (download_uuid w)"
  let ?fs1 = "snd (downloadVideo cfg w url fs)"
  from a have res: "fst (downloadVideo cfg w url fs) = Resolved vp"
    and u: "CHR ''/'' \<notin> set (download_uuid w)" by simp_all
  from download_resolved [OF res u] obtain fsA
    where vp: "vp = (dirname cfg @ [''temp'', download_uuid w @ ''.mp4''], False)"
      and c: "fs_create fsA vp = Inr ?fs1"
    by blast
  have d: "downloadVideo cfg w url fs = (Resolved vp, ?fs1)"
    using res by (simp add: prod_eq_iff)
  have 1: "post_extract_keyframes cfg w req fs =
                 extract_staged cfg w req (interval_of (req_interval req)) vp ?fs1"
    using a post_downloaded [OF v _ d] by blast
  have 2: "stat ?fs1 vp = Inr File"
    using stat_after_create [of fsA "fst vp" ?fs1] c vp by simp
  have 3: "\<not> prefix (dirname cfg @ [''uploads'', vid]) (fst vp)"
    "\<not> prefix (fst vp) (dirname cfg @ [''uploads'', vid])"
    by (simp_all add: vp)
  from 1 2 3 download_keeps_fresh [OF res u] download_keeps_clear [OF res u]
  show ?thesis by blast
next
  assume a: "url_of req = None \<and> req_file req = Some (fst vp) \<and> snd vp = False \<and>
               fst vp = dirname cfg @ [''temp'', name] \<and> stat fs vp = Inr File"
  then have "vp = (fst vp, False)" by (simp add: prod_eq_iff)
  with v a have 1: "post_extract_keyframes cfg w req fs =
                 extract_staged cfg w req (interval_of (req_interval req)) vp fs"
    using post_uploaded [of req "fst vp" cfg w fs] by simp
  from a have 3: "\<not> prefix (dirname cfg @ [''uploads'', vid]) (fst vp)"
    "\<not> prefix (fst vp) (dirname cfg @ [''uploads'', vid])"
    by simp_all
  from 1 3 a show ?thesis by blast
qed

section \<open>The client errors of the route\<close>

lemma route_passed:
  "raw_body_error raw = None \<Longrightarrow> upload_single cfg w raw fs = Passed req fs1 \<Longrightarrow>
   extract_route cfg w raw fs = post_extract_keyframes cfg w req fs1"
  by (simp add: extract_route_def)

lemma route_400:
  assumes "reply (extract_route cfg w raw fs) = Some (Response 400 b)"
  shows "\<exists>req fs1. upload_single cfg w raw fs = Passed req fs1 \<and>
           reply (post_extract_keyframes cfg w req fs1) = Some (Response 400 b)"
proof (cases "raw_body_error raw")
  case (Some m)
  with assms show ?thesis by (simp add: extract_route_def error_middleware_def)
next
  case None
  show ?thesis
  proof (cases "upload_single cfg w raw fs")
    case (Passed req fs1)
    with None assms show ?thesis by (simp add: extract_route_def)
  next
    case (Errored m fs1)
    with None assms show ?thesis by (simp add: extract_route_def error_middleware_def)
  next
    case (Unanswered fs1)
    with None assms show ?thesis by (simp add: extract_route_def)
  qed
qed





text \<open>
  Claim C5, as amended. Once the request has passed the body parser and the upload
  middleware, a download that fails (\<open>downloadVideo\<close> rejects, as it does when \<open>axios\<close>
  throws for a transport error, a timeout or a status outside 2xx) is answered \<open>400\<close> with
  the summary and the error's message as details. The route replies \<open>400\<close> for exactly
  three reasons: an interval outside the range, a failed download, and no source.
\<close>

theorem download_failure_replies_400:
  "(raw_body_error raw = None \<and> upload_single cfg w raw fs = Passed req fs1 \<and>
    1 \<le> interval_of (req_interval req) \<and> interval_of (req_interval req) \<le> 60 \<and>
    url_of req = Some url \<and> fst (downloadVideo cfg w url fs1) = Rejected msg \<longrightarrow>
      reply (extract_route cfg w raw fs) =
        Some (Response 400 (ErrorBody ''Failed to download video from URL'' (Some msg)))) \<and>
   (download w = AxiosFails msg \<and> existsSync fs1 (temp_dir cfg) \<longrightarrow>
      fst (downloadVideo cfg w url fs1) = Rejected msg) \<and>
   (reply (extract_route cfg w raw fs) = Some (Response 400 b) \<longrightarrow>
      (\<exists>rq st. upload_single cfg w raw fs = Passed rq st \<and>
         (((interval_of (req_interval rq) < 1 \<or> 60 < interval_of (req_interval rq)) \<and>
             b = ErrorBody ''Interval must be between 1 and 60 seconds'' None) \<or>
          (\<exists>u m. url_of rq = Some u \<and> fst (downloadVideo cfg w u st) = Rejected m \<and>
             b = ErrorBody ''Failed to download video from URL'' (Some m)) \<or>
          (url_of rq = None \<and> req_file rq = None \<and>
             b = ErrorBody ''Either videoUrl or video file must be provided'' None))))"
proof (intro conjI impI)
  assume a: "raw_body_error raw = None \<and> upload_single cfg w raw fs = Passed req fs1 \<and>
    1 \<le> interval_of (req_interval req) \<and> interval_of (req_interval req) \<le> 60 \<and>
    url_of req = Some url \<and> fst (downloadVideo cfg w url fs1) = Rejected msg"
  then have "extract_route cfg w raw fs = post_extract_keyframes cfg w req fs1"
    by (simp add: route_passed)
  with a show "reply (extract_route cfg w raw fs) =
        Some (Response 400 (ErrorBody ''Failed to download video from URL'' (Some msg)))"
    by (simp add: post_download_rejected)
next
  assume "download w = AxiosFails msg \<and> existsSync fs1 (temp_dir cfg)"
  then show "fst (downloadVideo cfg w url fs1) = Rejected msg"
    by (simp add: downloadVideo_def Let_def split: sum.splits)
next
  assume "reply (extract_route cfg w raw fs) = Some (Response 400 b)"
  from route_400 [OF this] obtain rq st
    where p: "upload_single cfg w raw fs = Passed rq st"
      and r: "reply (post_extract_keyframes cfg w rq st) = Some (Response 400 b)"
    by blast
  from handler_400 [OF r] p
  show "\<exists>rq st. upload_single cfg w raw fs = Passed rq st \<and>
         (((interval_of (req_interval rq) < 1 \<or> 60 < interval_of (req_interval rq)) \<and>
             b = ErrorBody ''Interval must be between 1 and 60 seconds'' None) \<or>
          (\<exists>u m. url_of rq = Some u \<and> fst (downloadVideo cfg w u st) = Rejected m \<and>
             b = ErrorBody ''Failed to download video from URL'' (Some m)) \<or>
          (url_of rq = None \<and> req_file rq = None \<and>
             b = ErrorBody ''Either videoUrl or video file must be provided'' None))"
    by blast
qed

text \<open>
  The claim as stated fails: a download that times out is answered \<open>400\<close>, not \<open>500\<close>.
\<close>

theorem download_failure_counterexample:
  "download example_world = AxiosFails ''timeout of 60000ms exceeded'' \<and>
   reply (extract_route example_cfg example_world example_raw_by_url example_fs) =
     Some (Response 400 (ErrorBody ''Failed to download video from URL''
                           (Some ''timeout of 60000ms exceeded'')))"
  by code_simp

theorem download_failure_replies_400_witness:
  "raw_body_error example_raw_by_url = None \<and>
   upload_single example_cfg example_world example_raw_by_url example_fs =
     Passed example_by_url example_fs \<and>
   1 \<le> interval_of (req_interval example_by_url) \<and>
   interval_of (req_interval example_by_url) \<le> 60 \<and>
   url_of example_by_url = Some ''http://media.test/a.mp4'' \<and>
   download example_world = AxiosFails ''timeout of 60000ms exceeded'' \<and>
   existsSync example_fs (temp_dir example_cfg) \<and>
   fst (downloadVideo example_cfg example_world ''http://media.test/a.mp4'' example_fs) =
     Rejected ''timeout of 60000ms exceeded'' \<and>
   reply (extract_route example_cfg example_world example_raw_by_url example_fs) =
     Some (Response 400 (ErrorBody ''Failed to download video from URL''
                           (Some ''timeout of 60000ms exceeded''))) \<and>
   (\<exists>rq st. upload_single example_cfg example_world example_raw_by_url example_fs =
        Passed rq st \<and>
      (((interval_of (req_interval rq) < 1 \<or> 60 < interval_of (req_interval rq)) \<and>
          ErrorBody ''Failed to download video from URL'' (Some ''timeout of 60000ms exceeded'') =
            ErrorBody ''Interval must be between 1 and 60 seconds'' None) \<or>
       (\<exists>u m. url_of rq = Some u \<and>
          fst (downloadVideo example_cfg example_world u st) = Rejected m \<and>
          ErrorBody ''Failed to download video from URL'' (Some ''timeout of 60000ms exceeded'') =
            ErrorBody ''Failed to download video from URL'' (Some m)) \<or>
       (url_of rq = None \<and> req_file rq = None \<and>
          ErrorBody ''Failed to download video from URL'' (Some ''timeout of 60000ms exceeded'') =
            ErrorBody ''Either videoUrl or video file must be provided'' None)))"
proof -
  have e: "raw_body_error example_raw_by_url = None" by code_simp
  have p: "upload_single example_cfg example_world example_raw_by_url example_fs =
     Passed example_by_url example_fs" by code_simp
  have i1: "1 \<le> interval_of (req_interval example_by_url)" by code_simp
  have i2: "interval_of (req_interval example_by_url) \<le> 60" by code_simp
  have u: "url_of example_by_url = Some ''http://media.test/a.mp4''" by code_simp
  have d: "download example_world = AxiosFails ''timeout of 60000ms exceeded''" by code_simp
  have t: "existsSync example_fs (temp_dir example_cfg)" by code_simp
  note a = download_failure_replies_400 [of example_raw_by_url example_cfg example_world
      example_fs example_by_url example_fs "''http://media.test/a.mp4''"
      "''timeout of 60000ms exceeded''"
      "ErrorBody ''Failed to download video from URL'' (Some ''timeout of 60000ms exceeded'')"]
  note a1 = a [THEN conjunct1]
  note a2 = a [THEN conjunct2, THEN conjunct1]
  note a3 = a [THEN conjunct2, THEN conjunct2]
  have r: "fst (downloadVideo example_cfg example_world ''http://media.test/a.mp4'' example_fs) =
     Rejected ''timeout of 60000ms exceeded''"
    by (rule mp [OF a2]) (intro conjI d t)
  have y: "reply (extract_route example_cfg example_world example_raw_by_url example_fs) =
     Some (Response 400 (ErrorBody ''Failed to download video from URL''
                           (Some ''timeout of 60000ms exceeded'')))"
    by (rule mp [OF a1]) (intro conjI e p i1 i2 u r)
  note z = mp [OF a3 y]
  show ?thesis by (intro conjI e p i1 i2 u d t r y z)
qed




section \<open>Rollback, cleanup and short videos\<close>

text \<open>
  Claim C2, as amended. The video is staged when the download resolved, or when the
  upload is a regular file in the staging directory. If the engine then reports an error,
  the reply is \<open>500\<close> with details; the output directory has been removed when the reply is
  sent, while the staged video is still there at that moment: the \<open>finally\<close> block deletes
  it after the reply. When the handler ends, neither the staged video nor the output
  directory, nor any frame in it, exists.
\<close>

theorem failed_extraction_rolls_back:
  assumes "1 \<le> interval_of (req_interval req)" and "interval_of (req_interval req) \<le> 60"
    and "(url_of req = Some url \<and> fst (downloadVideo cfg w url fs) = Resolved vp \<and>
          CHR ''/'' \<notin> set (download_uuid w)) \<or>
         (url_of req = None \<and> req_file req = Some (fst vp) \<and> snd vp = False \<and>
          fst vp = dirname cfg @ [''temp'', name] \<and> stat fs vp = Inr File)"
    and "plain_segment (video_uuid w)"
    and "engine w = EngineError msg ws"
  shows "(\<exists>m. reply (post_extract_keyframes cfg w req fs) =
              Some (Response 500 (ErrorBody ''Failed to extract keyframes'' (Some m)))) \<and>
         \<not> existsSync (fs_replied (post_extract_keyframes cfg w req fs))
             (path_join (dirname cfg) [''uploads'', video_uuid w]) \<and>
         existsSync (fs_replied (post_extract_keyframes cfg w req fs)) vp \<and>
         \<not> existsSync (fs_done (post_extract_keyframes cfg w req fs))
             (path_join (dirname cfg) [''uploads'', video_uuid w]) \<and>
         \<not> existsSync (fs_done (post_extract_keyframes cfg w req fs)) vp \<and>
         (\<forall>n. \<not> existsSync (fs_done (post_extract_keyframes cfg w req fs))
                (path_join (fst (path_join (dirname cfg) [''uploads'', video_uuid w]))
                   [frame_name n]))"
proof -
  let ?p = "dirname cfg @ [''uploads'', video_uuid w]"
  from acquired [OF assms(1-3), of "video_uuid w"] obtain fs1
    where post: "post_extract_keyframes cfg w req fs =
                   extract_staged cfg w req (interval_of (req_interval req)) vp fs1"
      and staged: "stat fs1 vp = Inr File"
      and out: "\<not> prefix ?p (fst vp)" and up: "\<not> prefix (fst vp) ?p"
    by blast
  note f = staged_failure [OF assms(4) assms(5) staged out up, of req
      "interval_of (req_interval req)"]
  have od: "path_join (dirname cfg) [''uploads'', video_uuid w] = (?p, False)"
    using assms(4) by (rule output_dir)
  from f have "\<not> existsSync (fs_done (post_extract_keyframes cfg w req fs)) (?p, False)"
    unfolding post by blast
  then have "\<not> existsSync (fs_done (post_extract_keyframes cfg w req fs))
               (?p @ [frame_name n], False)" for n
    by (rule not_exists_below) simp
  with f show ?thesis unfolding post od by (simp add: frame_path)
qed

text \<open>
  Claim C8. After a request that staged a video and was answered \<open>200\<close>, the staged video
  no longer exists, the job's output directory is a directory, and every frame the engine
  wrote exists in it.
\<close>

theorem successful_extraction_keeps_output:
  assumes "1 \<le> interval_of (req_interval req)" and "interval_of (req_interval req) \<le> 60"
    and "(url_of req = Some url \<and> fst (downloadVideo cfg w url fs) = Resolved vp \<and>
          CHR ''/'' \<notin> set (download_uuid w)) \<or>
         (url_of req = None \<and> req_file req = Some (fst vp) \<and> snd vp = False \<and>
          fst vp = dirname cfg @ [''temp'', name] \<and> stat fs vp = Inr File)"
    and "plain_segment (video_uuid w)"
    and "engine w = EngineEnd ws"
    and "reply (post_extract_keyframes cfg w req fs) = Some (Response 200 b)"
  shows "\<not> existsSync (fs_done (post_extract_keyframes cfg w req fs)) vp \<and>
         stat (fs_done (post_extract_keyframes cfg w req fs))
           (path_join (dirname cfg) [''uploads'', video_uuid w]) = Inr Dir \<and>
         (\<forall>n\<in>set ws. existsSync (fs_done (post_extract_keyframes cfg w req fs))
            (path_join (fst (path_join (dirname cfg) [''uploads'', video_uuid w]))
               [frame_name n]))"
proof -
  let ?p = "dirname cfg @ [''uploads'', video_uuid w]"
  from acquired [OF assms(1-3), of "video_uuid w"] obtain fs1
    where post: "post_extract_keyframes cfg w req fs =
                   extract_staged cfg w req (interval_of (req_interval req)) vp fs1"
      and staged: "stat fs1 vp = Inr File"
      and out: "\<not> prefix ?p (fst vp)" and up: "\<not> prefix (fst vp) ?p"
    by blast
  have od: "path_join (dirname cfg) [''uploads'', video_uuid w] = (?p, False)"
    using assms(4) by (rule output_dir)
  from assms(6) have ok: "reply (extract_staged cfg w req (interval_of (req_interval req)) vp fs1) =
      Some (Response 200 b)"
    unfolding post .
  from staged_success_state [OF assms(4) assms(5) ok staged out up]
  show ?thesis unfolding post od by (simp add: frame_path)
qed

text \<open>
  Claim C7. The engine ends having written no frame or one frame, into an output directory
  that is new (nothing of the file system lies at or below it, and no regular file stands
  on the way to it). Then the reply is \<open>200\<close> with the interval, the frame count and the
  list of the frame URLs: empty, or the single frame.
\<close>

theorem short_video_succeeds:
  assumes "1 \<le> interval_of (req_interval req)" and "interval_of (req_interval req) \<le> 60"
    and "(url_of req = Some url \<and> fst (downloadVideo cfg w url fs) = Resolved vp \<and>
          CHR ''/'' \<notin> set (download_uuid w)) \<or>
         (url_of req = None \<and> req_file req = Some (fst vp) \<and> snd vp = False \<and>
          fst vp = dirname cfg @ [''temp'', name] \<and> stat fs vp = Inr File)"
    and "plain_segment (video_uuid w)"
    and "engine w = EngineEnd ws" and "length ws \<le> 1"
    and "\<not> file_above fs (fst (path_join (dirname cfg) [''uploads'', video_uuid w]))"
    and "list_all (\<lambda>e. \<not> prefix (fst (path_join (dirname cfg) [''uploads'', video_uuid w])) (fst e)) fs"
  shows "reply (post_extract_keyframes cfg w req fs) =
     Some (Response 200
       (ExtractOk (video_uuid w) (interval_of (req_interval req)) (length ws)
          (map (\<lambda>n. base_url cfg req @ ''/frames/'' @ video_uuid w @ ''/'' @ frame_name n) ws)))"
proof -
  let ?p = "dirname cfg @ [''uploads'', video_uuid w]"
  have od: "path_join (dirname cfg) [''uploads'', video_uuid w] = (?p, False)"
    using assms(4) by (rule output_dir)
  from acquired [OF assms(1-3), of "video_uuid w"] assms(7,8) obtain fs1
    where post: "post_extract_keyframes cfg w req fs =
                   extract_staged cfg w req (interval_of (req_interval req)) vp fs1"
      and clear: "\<not> file_above fs1 ?p"
      and fresh: "list_all (\<lambda>e. \<not> prefix ?p (fst e)) fs1"
    unfolding od by auto
  from assms(6) have d: "distinct ws" and s: "sort ws = ws"
    by (cases ws; cases "tl ws"; simp)+
  from staged_success_reply [OF assms(4) assms(5) d disjI1 [OF assms(6)] clear fresh, of req
      "interval_of (req_interval req)" vp]
  show ?thesis unfolding post s .
qed

theorem failed_extraction_rolls_back_witness:
  "1 \<le> interval_of (req_interval example_upload) \<and>
   interval_of (req_interval example_upload) \<le> 60 \<and>
   url_of example_upload = None \<and>
   req_file example_upload = Some [''app'', ''temp'', ''u.mp4''] \<and>
   stat example_fs ([''app'', ''temp'', ''u.mp4''], False) = Inr File \<and>
   plain_segment (video_uuid example_engine_fails) \<and>
   engine example_engine_fails = EngineError ''Invalid data found'' [1] \<and>
   reply (post_extract_keyframes example_cfg example_engine_fails example_upload example_fs) =
     Some (Response 500 (ErrorBody ''Failed to extract keyframes''
                           (Some ''FFmpeg error: Invalid data found''))) \<and>
   \<not> existsSync (fs_done (post_extract_keyframes example_cfg example_engine_fails
                              example_upload example_fs))
       (path_join (dirname example_cfg) [''uploads'', video_uuid example_engine_fails]) \<and>
   \<not> existsSync (fs_done (post_extract_keyframes example_cfg example_engine_fails
                              example_upload example_fs))
       ([''app'', ''temp'', ''u.mp4''], False)"
proof -
  have i: "1 \<le> interval_of (req_interval example_upload)"
    "interval_of (req_interval example_upload) \<le> 60" by code_simp+
  have a: "url_of example_upload = None"
    "req_file example_upload = Some [''app'', ''temp'', ''u.mp4'']"
    "stat example_fs ([''app'', ''temp'', ''u.mp4''], False) = Inr File" by code_simp+
  have d: "dirname example_cfg @ [''temp'', ''u.mp4''] = [''app'', ''temp'', ''u.mp4'']"
    by code_simp
  have p: "plain_segment (video_uuid example_engine_fails)" by code_simp
  have e: "engine example_engine_fails = EngineError ''Invalid data found'' [1]" by code_simp
  have r: "reply (post_extract_keyframes example_cfg example_engine_fails example_upload example_fs) =
     Some (Response 500 (ErrorBody ''Failed to extract keyframes''
                           (Some ''FFmpeg error: Invalid data found'')))" by code_simp
  have acq: "(url_of example_upload = Some [] \<and>
          fst (downloadVideo example_cfg example_engine_fails [] example_fs) =
            Resolved ([''app'', ''temp'', ''u.mp4''], False) \<and>
          CHR ''/'' \<notin> set (download_uuid example_engine_fails)) \<or>
         (url_of example_upload = None \<and>
          req_file example_upload = Some (fst ([''app'', ''temp'', ''u.mp4''], False)) \<and>
          snd ([''app'', ''temp'', ''u.mp4''], False) = False \<and>
          fst ([''app'', ''temp'', ''u.mp4''], False) = dirname example_cfg @ [''temp'', ''u.mp4''] \<and>
          stat example_fs ([''app'', ''temp'', ''u.mp4''], False) = Inr File)"
    by (simp add: a d)
  note t = failed_extraction_rolls_back [OF i acq p e]
  from t have 1: "\<not> existsSync (fs_done (post_extract_keyframes example_cfg example_engine_fails
                              example_upload example_fs))
       (path_join (dirname example_cfg) [''uploads'', video_uuid example_engine_fails])"
    by blast
  from t have 2: "\<not> existsSync (fs_done (post_extract_keyframes example_cfg example_engine_fails
                              example_upload example_fs))
       ([''app'', ''temp'', ''u.mp4''], False)"
    by blast
  from i a p e r 1 2 show ?thesis by blast
qed

text \<open>
  The claim as stated fails in its order of events: when the \<open>500\<close> reply is sent, the
  staged upload is still on disk.
\<close>

theorem staged_video_present_at_reply:
  "reply (post_extract_keyframes example_cfg example_engine_fails example_upload example_fs) =
     Some (Response 500 (ErrorBody ''Failed to extract keyframes''
                           (Some ''FFmpeg error: Invalid data found''))) \<and>
   existsSync (fs_replied (post_extract_keyframes example_cfg example_engine_fails
                             example_upload example_fs))
     ([''app'', ''temp'', ''u.mp4''], False)"
  by code_simp

theorem successful_extraction_keeps_output_witness:
  "1 \<le> interval_of (req_interval example_by_url) \<and>
   interval_of (req_interval example_by_url) \<le> 60 \<and>
   url_of example_by_url = Some ''http://media.test/a.mp4'' \<and>
   fst (downloadVideo example_cfg example_download_ok ''http://media.test/a.mp4'' example_fs) =
     Resolved ([''app'', ''temp'', ''0b9d6c1e-5d4a-4b7c-9e1f-0a2b3c4d5e6f.mp4''], False) \<and>
   CHR ''/'' \<notin> set (download_uuid example_download_ok) \<and>
   plain_segment (video_uuid example_download_ok) \<and>
   engine example_download_ok = EngineEnd [1] \<and>
   reply (post_extract_keyframes example_cfg example_download_ok example_by_url example_fs) =
     Some (Response 200
       (ExtractOk ''3f2b8c1e-7a10-4c55-8d21-6e0f9a4b2c77'' 5 1
         [''http://localhost:3000/frames/3f2b8c1e-7a10-4c55-8d21-6e0f9a4b2c77/frame_1.jpg''])) \<and>
   \<not> existsSync (fs_done (post_extract_keyframes example_cfg example_download_ok
                              example_by_url example_fs))
       ([''app'', ''temp'', ''0b9d6c1e-5d4a-4b7c-9e1f-0a2b3c4d5e6f.mp4''], False) \<and>
   stat (fs_done (post_extract_keyframes example_cfg example_download_ok
                    example_by_url example_fs))
     (path_join (dirname example_cfg) [''uploads'', video_uuid example_download_ok]) = Inr Dir \<and>
   existsSync (fs_done (post_extract_keyframes example_cfg example_download_ok
                          example_by_url example_fs))
     (path_join (fst (path_join (dirname example_cfg) [''uploads'', video_uuid example_download_ok]))
        [frame_name 1])"
proof -
  have i: "1 \<le> interval_of (req_interval example_by_url)"
    "interval_of (req_interval example_by_url) \<le> 60" by code_simp+
  have a: "url_of example_by_url = Some ''http://media.test/a.mp4''"
    "fst (downloadVideo example_cfg example_download_ok ''http://media.test/a.mp4'' example_fs) =
     Resolved ([''app'', ''temp'', ''0b9d6c1e-5d4a-4b7c-9e1f-0a2b3c4d5e6f.mp4''], False)"
    "CHR ''/'' \<notin> set (download_uuid example_download_ok)" by code_simp+
  have p: "plain_segment (video_uuid example_download_ok)" by code_simp
  have e: "engine example_download_ok = EngineEnd [1]" by code_simp
  have r: "reply (post_extract_keyframes example_cfg example_download_ok example_by_url example_fs) =
     Some (Response 200
       (ExtractOk ''3f2b8c1e-7a10-4c55-8d21-6e0f9a4b2c77'' 5 1
         [''http://localhost:3000/frames/3f2b8c1e-7a10-4c55-8d21-6e0f9a4b2c77/frame_1.jpg'']))"
    by code_simp
  have acq: "(url_of example_by_url = Some ''http://media.test/a.mp4'' \<and>
          fst (downloadVideo example_cfg example_download_ok ''http://media.test/a.mp4'' example_fs) =
            Resolved ([''app'', ''temp'', ''0b9d6c1e-5d4a-4b7c-9e1f-0a2b3c4d5e6f.mp4''], False) \<and>
          CHR ''/'' \<notin> set (download_uuid example_download_ok)) \<or>
         (url_of example_by_url = None \<and>
          req_file example_by_url =
            Some (fst ([''app'', ''temp'', ''0b9d6c1e-5d4a-4b7c-9e1f-0a2b3c4d5e6f.mp4''], False)) \<and>
          snd ([''app'', ''temp'', ''0b9d6c1e-5d4a-4b7c-9e1f-0a2b3c4d5e6f.mp4''], False) = False \<and>
          fst ([''app'', ''temp'', ''0b9d6c1e-5d4a-4b7c-9e1f-0a2b3c4d5e6f.mp4''], False) =
            dirname example_cfg @ [''temp'', []] \<and>
          stat example_fs ([''app'', ''temp'', ''0b9d6c1e-5d4a-4b7c-9e1f-0a2b3c4d5e6f.mp4''], False) =
            Inr File)"
    using a by blast
  note t = successful_extraction_keeps_output [OF i acq p e r]
  from t have 1: "\<not> existsSync (fs_done (post_extract_keyframes example_cfg example_download_ok
                              example_by_url example_fs))
       ([''app'', ''temp'', ''0b9d6c1e-5d4a-4b7c-9e1f-0a2b3c4d5e6f.mp4''], False)"
    by blast
  from t have 2: "stat (fs_done (post_extract_keyframes example_cfg example_download_ok
                    example_by_url example_fs))
     (path_join (dirname example_cfg) [''uploads'', video_uuid example_download_ok]) = Inr Dir"
    by blast
  from t have 3: "existsSync (fs_done (post_extract_keyframes example_cfg example_download_ok
                          example_by_url example_fs))
     (path_join (fst (path_join (dirname example_cfg) [''uploads'', video_uuid example_download_ok]))
        [frame_name 1])"
    by simp
  from i a p e r 1 2 3 show ?thesis by blast
qed

theorem short_video_succeeds_witness:
  "1 \<le> interval_of (req_interval example_upload) \<and>
   interval_of (req_interval example_upload) \<le> 60 \<and>
   url_of example_upload = None \<and>
   req_file example_upload = Some [''app'', ''temp'', ''u.mp4''] \<and>
   stat example_fs ([''app'', ''temp'', ''u.mp4''], False) = Inr File \<and>
   plain_segment (video_uuid example_world) \<and>
   engine example_world = EngineEnd [1] \<and> length [1::nat] \<le> 1 \<and>
   \<not> file_above example_fs
       (fst (path_join (dirname example_cfg) [''uploads'', video_uuid example_world])) \<and>
   list_all (\<lambda>e. \<not> prefix (fst (path_join (dirname example_cfg)
                                       [''uploads'', video_uuid example_world])) (fst e))
     example_fs \<and>
   reply (post_extract_keyframes example_cfg example_world example_upload example_fs) =
     Some (Response 200
       (ExtractOk (video_uuid example_world) (interval_of (req_interval example_upload)) 1
          (map (\<lambda>n. base_url example_cfg example_upload @ ''/frames/'' @
                      video_uuid example_world @ ''/'' @ frame_name n) [1])))"
proof -
  have i: "1 \<le> interval_of (req_interval example_upload)"
    "interval_of (req_interval example_upload) \<le> 60" by code_simp+
  have a: "url_of example_upload = None"
    "req_file example_upload = Some [''app'', ''temp'', ''u.mp4'']"
    "stat example_fs ([''app'', ''temp'', ''u.mp4''], False) = Inr File" by code_simp+
  have d: "dirname example_cfg @ [''temp'', ''u.mp4''] = [''app'', ''temp'', ''u.mp4'']"
    by code_simp
  have p: "plain_segment (video_uuid example_world)" by code_simp
  have e: "engine example_world = EngineEnd [1]" by code_simp
  have l: "length [1::nat] \<le> 1" by simp
  have c: "\<not> file_above example_fs
       (fst (path_join (dirname example_cfg) [''uploads'', video_uuid example_world]))"
    by code_simp
  have f: "list_all (\<lambda>e. \<not> prefix (fst (path_join (dirname example_cfg)
                                       [''uploads'', video_uuid example_world])) (fst e))
     example_fs"
    by code_simp
  have acq: "(url_of example_upload = Some [] \<and>
          fst (downloadVideo example_cfg example_world [] example_fs) =
            Resolved ([''app'', ''temp'', ''u.mp4''], False) \<and>
          CHR ''/'' \<notin> set (download_uuid example_world)) \<or>
         (url_of example_upload = None \<and>
          req_file example_upload = Some (fst ([''app'', ''temp'', ''u.mp4''], False)) \<and>
          snd ([''app'', ''temp'', ''u.mp4''], False) = False \<and>
          fst ([''app'', ''temp'', ''u.mp4''], False) = dirname example_cfg @ [''temp'', ''u.mp4''] \<and>
          stat example_fs ([''app'', ''temp'', ''u.mp4''], False) = Inr File)"
    by (simp add: a d)
  note t = short_video_succeeds [OF i acq p e l c f]
  from t have r: "reply (post_extract_keyframes example_cfg example_world example_upload example_fs) =
     Some (Response 200
       (ExtractOk (video_uuid example_world) (interval_of (req_interval example_upload)) 1
          (map (\<lambda>n. base_url example_cfg example_upload @ ''/frames/'' @
                      video_uuid example_world @ ''/'' @ frame_name n) [1])))"
    by simp
  from i a p e l c f r show ?thesis by blast
qed

end
